theory Spec2Isabelle
  imports Main "HOL-Library.AList"
begin

section \<open>Python values and exceptions\<close>

text \<open>
  Python integers are unbounded, so they are \<open>int\<close>. Python's \<open>//\<close> and \<open>%\<close> round
  towards minus infinity, as \<open>div\<close> and \<open>mod\<close> on \<open>int\<close> do, but they raise on a zero
  divisor where HOL returns a value; every division below carries that check.
\<close>

datatype py_error =
    ZeroDivisionError
  | ValueError
  | TypeError
  | AttributeError
  | KeyError
  | IndexError
  | JSONDecodeError
  | ConnectionError
  | FileNotFoundError
  | ParserError

text \<open>
  The values that travel through the program: what \<open>json.loads\<close> returns, what a
  dataframe cell holds, what a configuration entry is. A Python \<open>dict\<close> keeps its keys
  in insertion order, so it is an association list with distinct keys, read with
  \<open>map_of\<close> and written with \<open>AList.update\<close> (which replaces in place or appends).
  Floats are never computed with in the code modelled here; a float is kept as the text
  of its literal.
\<close>

datatype pyval =
    PNone
  | PBool bool
  | PInt int
  | PFloat string
  | PStr string
  | PList "pyval list"
  | PDict "(string \<times> pyval) list"

type_synonym pydict = "(string \<times> pyval) list"

section \<open>Orchestrator: planning row ranges\<close>

text \<open>
  The dictionaries \<open>{'start': .., 'end': .., 'worker_id': ..}\<close> built by
  \<open>Orchestrator.calculate_row_ranges\<close> (\<open>end\<close> is a keyword, hence the prefix).
\<close>

record row_range =
  range_start :: int
  range_end :: int
  worker_id :: int

text \<open>
  The body of \<open>for i in range(num_workers)\<close>: the loop variable runs over the list of
  indices, \<open>start\<close> and \<open>ranges\<close> are the two variables the loop updates.
\<close>

fun ranges_loop :: "int \<Rightarrow> int \<Rightarrow> nat list \<Rightarrow> int \<Rightarrow> row_range list \<Rightarrow> row_range list" where
  "ranges_loop rows_per_worker remainder [] start ranges = ranges"
| "ranges_loop rows_per_worker remainder (i # is) start ranges =
     (let extra = (if int i < remainder then 1 else 0);
          end = start + rows_per_worker + extra - 1
      in ranges_loop rows_per_worker remainder is (end + 1)
           (ranges @ [\<lparr>range_start = start, range_end = end, worker_id = int i + 1\<rparr>]))"

text \<open>
  \<open>calculate_row_ranges(total_rows, num_workers)\<close>. A zero worker count raises at the
  first division; \<open>range\<close> of a negative count is empty.
\<close>

definition calculate_row_ranges :: "int \<Rightarrow> int \<Rightarrow> py_error + row_range list" where
  "calculate_row_ranges total_rows num_workers =
     (if num_workers = 0 then Inl ZeroDivisionError
      else
        let rows_per_worker = total_rows div num_workers;
            remainder = total_rows mod num_workers
        in Inr (ranges_loop rows_per_worker remainder [0..<nat num_workers] 1 []))"

text \<open>The number of rows of an inclusive range, and the rows it holds.\<close>

definition range_size :: "row_range \<Rightarrow> int" where
  "range_size r = range_end r - range_start r + 1"

definition range_rows :: "row_range \<Rightarrow> int set" where
  "range_rows r = {range_start r .. range_end r}"

text \<open>
  The closed form of the plan, used to reason about the loop: \<open>boundary b r k\<close> is the
  last row of the first \<open>k\<close> ranges when the base size is \<open>b\<close> and the remainder is
  \<open>r\<close>, and \<open>nth_range b r k\<close> is the range the loop appends in iteration \<open>k\<close>.
\<close>

definition boundary :: "int \<Rightarrow> int \<Rightarrow> nat \<Rightarrow> int" where
  "boundary b r k = int k * b + min (int k) r"

definition nth_range :: "int \<Rightarrow> int \<Rightarrow> nat \<Rightarrow> row_range" where
  "nth_range b r k =
     \<lparr>range_start = 1 + int k * b + min (int k) r,
      range_end = (int k + 1) * b + min (int k + 1) r,
      worker_id = int k + 1\<rparr>"


section \<open>Serializer: the checkpoint store\<close>

subsection \<open>Strings, paths and the file system\<close>

text \<open>\<open>s.startswith(p)\<close> and \<open>s.endswith(p)\<close>.\<close>

definition startswith :: "string \<Rightarrow> string \<Rightarrow> bool" where
  "startswith s p = (take (length p) s = p)"

definition endswith :: "string \<Rightarrow> string \<Rightarrow> bool" where
  "endswith s p = (length p \<le> length s \<and> drop (length s - length p) s = p)"

text \<open>\<open>s.find(c)\<close> and \<open>s.rfind(c)\<close> for a one-character needle; \<open>None\<close> is Python's -1.\<close>

fun find_char :: "char \<Rightarrow> string \<Rightarrow> nat option" where
  "find_char c [] = None"
| "find_char c (x # xs) = (if x = c then Some 0 else map_option Suc (find_char c xs))"

definition rfind_char :: "char \<Rightarrow> string \<Rightarrow> nat option" where
  "rfind_char c s =
     (case find_char c (rev s) of None \<Rightarrow> None | Some i \<Rightarrow> Some (length s - 1 - i))"

text \<open>
  \<open>str.isspace\<close> on the characters a one-byte \<open>char\<close> can hold, and \<open>str.strip()\<close>.
\<close>

definition is_space :: "char \<Rightarrow> bool" where
  "is_space c = (of_char c \<in> {9::nat, 10, 11, 12, 13, 28, 29, 30, 31, 32, 133, 160})"

definition strip :: "string \<Rightarrow> string" where
  "strip s = rev (dropWhile is_space (rev (dropWhile is_space s)))"

text \<open>
  \<open>s.split(sep)\<close> for a non-empty separator \<open>sep\<close>: the pieces between the
  non-overlapping occurrences of \<open>sep\<close>, found from the left. \<open>acc\<close> is the piece being
  read.
\<close>

function split_loop :: "string \<Rightarrow> string \<Rightarrow> string \<Rightarrow> string list" where
  "split_loop sep acc [] = [acc]"
| "split_loop sep acc (c # cs) =
     (if sep \<noteq> [] \<and> startswith (c # cs) sep
      then acc # split_loop sep [] (drop (length sep) (c # cs))
      else split_loop sep (acc @ [c]) cs)"
  by pat_completeness auto
termination
  by (relation "measure (\<lambda>(sep, acc, s). length s)") (auto simp: neq_Nil_conv)

definition split :: "string \<Rightarrow> string \<Rightarrow> string list" where
  "split s sep = split_loop sep [] s"






text \<open>\<open>str(n)\<close> for a natural number, and the format \<open>{n:04d}\<close> (the sign counts in the width).\<close>

fun digits_of :: "nat \<Rightarrow> string" where
  "digits_of n =
     (if n < 10 then [''0123456789'' ! n]
      else digits_of (n div 10) @ [''0123456789'' ! (n mod 10)])"

declare digits_of.simps [simp del]

definition zero_pad :: "nat \<Rightarrow> string \<Rightarrow> string" where
  "zero_pad w ds = replicate (w - length ds) CHR ''0'' @ ds"

definition format_04d :: "int \<Rightarrow> string" where
  "format_04d n =
     (if 0 \<le> n then zero_pad 4 (digits_of (nat n))
      else CHR ''-'' # zero_pad 3 (digits_of (nat (- n))))"

text \<open>
  A dataframe: its column names and its rows, one cell per column. A file either holds a
  table that \<open>pd.read_csv\<close> reads back as that dataframe, or something \<open>pd.read_csv\<close>
  raises on. The file system maps path strings to files; \<open>Path(dir) / name\<close> joins with a
  slash.
\<close>

record frame =
  columns :: "string list"
  rows :: "pyval list list"

datatype file_content = Unreadable | Csv frame

type_synonym filesystem = "(string \<times> file_content) list"

definition path_join :: "string \<Rightarrow> string \<Rightarrow> string" where
  "path_join dir name = dir @ ''/'' @ name"

text \<open>
  \<open>pd.read_csv(path)\<close>: a missing file, unreadable content and a file without any
  column all raise.
\<close>

definition read_csv :: "filesystem \<Rightarrow> string \<Rightarrow> py_error + frame" where
  "read_csv fs path =
     (case map_of fs path of
        None \<Rightarrow> Inl FileNotFoundError
      | Some Unreadable \<Rightarrow> Inl ParserError
      | Some (Csv df) \<Rightarrow> if columns df = [] then Inl ParserError else Inr df)"

text \<open>\<open>df.to_csv(path, index=False)\<close> creates or replaces the file at \<open>path\<close>.\<close>

definition to_csv :: "filesystem \<Rightarrow> string \<Rightarrow> frame \<Rightarrow> filesystem" where
  "to_csv fs path df = AList.update path (Csv df) fs"

text \<open>The names of the entries of directory \<open>dir\<close>, and \<open>Path.stem\<close> of a name.\<close>

definition dir_entries :: "filesystem \<Rightarrow> string \<Rightarrow> string list" where
  "dir_entries fs dir =
     map (\<lambda>p. drop (length dir + 1) p)
       (filter (\<lambda>p. startswith p (dir @ ''/'') \<and> CHR ''/'' \<notin> set (drop (length dir + 1) p)
                    \<and> length dir + 1 < length p)
          (map fst fs))"


text \<open>
  \<open>df[col]\<close> raises \<open>KeyError\<close> on a missing column; \<open>.iloc[-1]\<close> raises \<open>IndexError\<close>
  on an empty column.
\<close>

fun index_of :: "'a \<Rightarrow> 'a list \<Rightarrow> nat option" where
  "index_of x [] = None"
| "index_of x (y # ys) = (if x = y then Some 0 else map_option Suc (index_of x ys))"

definition cell_at :: "pyval list \<Rightarrow> nat \<Rightarrow> pyval" where
  "cell_at row i = (if i < length row then row ! i else PNone)"

definition frame_column :: "frame \<Rightarrow> string \<Rightarrow> py_error + pyval list" where
  "frame_column df col =
     (case index_of col (columns df) of
        None \<Rightarrow> Inl KeyError
      | Some i \<Rightarrow> Inr (map (\<lambda>row. cell_at row i) (rows df)))"


subsection \<open>The Serializer class\<close>

record serializer =
  checkpoint_dir :: string
  checkpoint_interval :: int

text \<open>\<open>get_checkpoint_filename\<close>: \<open>checkpoint_{job_id}_part{checkpoint_num:04d}.csv\<close>.\<close>

definition checkpoint_name :: "string \<Rightarrow> int \<Rightarrow> string" where
  "checkpoint_name job_id checkpoint_num =
     ''checkpoint_'' @ job_id @ ''_part'' @ format_04d checkpoint_num @ ''.csv''"

definition get_checkpoint_filename :: "serializer \<Rightarrow> string \<Rightarrow> int \<Rightarrow> string" where
  "get_checkpoint_filename self job_id checkpoint_num =
     path_join (checkpoint_dir self) (checkpoint_name job_id checkpoint_num)"

text \<open>
  \<open>self.checkpoint_dir.glob(f"checkpoint_{job_id}_part*.csv")\<close>, for a \<open>job_id\<close> without
  the glob metacharacters \<open>*\<close>, \<open>?\<close> and \<open>[\<close> (\<open>glob_literal\<close>): the entries of the
  directory that start with the text before the star and end with the text after it.
\<close>

definition glob_literal :: "string \<Rightarrow> bool" where
  "glob_literal job_id = (set job_id \<inter> set ''*?['' = {})"

definition matches_part_pattern :: "string \<Rightarrow> string \<Rightarrow> bool" where
  "matches_part_pattern job_id name =
     (let pre = ''checkpoint_'' @ job_id @ ''_part''; suf = ''.csv''
      in startswith name pre \<and> endswith name suf \<and> length pre + length suf \<le> length name)"

definition glob_checkpoints :: "serializer \<Rightarrow> filesystem \<Rightarrow> string \<Rightarrow> string list" where
  "glob_checkpoints self fs job_id =
     filter (matches_part_pattern job_id) (dir_entries fs (checkpoint_dir self))"




text \<open>
  \<open>save_checkpoint(df_chunk, job_id, checkpoint_num, metadata)\<close>. Assigning a scalar to
  \<open>df_chunk[key]\<close> overwrites the column \<open>key\<close> or appends it. The function's only effect
  on the file system is one \<open>to_csv\<close> call; the model returns the list of \<open>to_csv\<close> calls
  it makes, in order, with the returned path, and \<open>run_writes\<close> carries them out.
\<close>

definition set_column :: "frame \<Rightarrow> string \<Rightarrow> pyval \<Rightarrow> frame" where
  "set_column df key v =
     (case index_of key (columns df) of
        Some i \<Rightarrow> df\<lparr>rows := map (\<lambda>row. row[i := v]) (rows df)\<rparr>
      | None \<Rightarrow> \<lparr>columns = columns df @ [key], rows = map (\<lambda>row. row @ [v]) (rows df)\<rparr>)"

definition add_metadata :: "frame \<Rightarrow> pydict \<Rightarrow> frame" where
  "add_metadata df_chunk metadata = fold (\<lambda>(key, v) df. set_column df key v) metadata df_chunk"

definition save_checkpoint ::
  "serializer \<Rightarrow> frame \<Rightarrow> string \<Rightarrow> int \<Rightarrow> pydict \<Rightarrow> (string \<times> frame) list \<times> string" where
  "save_checkpoint self df_chunk job_id checkpoint_num metadata =
     (let checkpoint_file = get_checkpoint_filename self job_id checkpoint_num;
          df_chunk = (if metadata \<noteq> [] then add_metadata df_chunk metadata else df_chunk)
      in ([(checkpoint_file, df_chunk)], checkpoint_file))"

definition run_writes :: "filesystem \<Rightarrow> (string \<times> frame) list \<Rightarrow> filesystem" where
  "run_writes fs writes = fold (\<lambda>(path, df) fs. to_csv fs path df) writes fs"

text \<open>
  \<open>list_checkpoints(job_id)\<close>: the matching paths, sorted. Paths of one directory sort by
  their names, compared character by character.
\<close>

fun str_le :: "string \<Rightarrow> string \<Rightarrow> bool" where
  "str_le [] ys = True"
| "str_le (x # xs) [] = False"
| "str_le (x # xs) (y # ys) =
     (if x = y then str_le xs ys else (of_char x :: nat) < of_char y)"

fun insert_sorted :: "string \<Rightarrow> string list \<Rightarrow> string list" where
  "insert_sorted x [] = [x]"
| "insert_sorted x (y # ys) = (if str_le x y then x # y # ys else y # insert_sorted x ys)"

definition sorted_names :: "string list \<Rightarrow> string list" where
  "sorted_names xs = foldr insert_sorted xs []"

definition list_checkpoints :: "serializer \<Rightarrow> filesystem \<Rightarrow> string \<Rightarrow> string list" where
  "list_checkpoints self fs job_id =
     map (path_join (checkpoint_dir self)) (sorted_names (glob_checkpoints self fs job_id))"

text \<open>
  \<open>pd.concat(dfs, ignore_index=True)\<close>: the columns in order of first appearance, the
  rows of the frames one after the other, \<open>NaN\<close> where a frame lacks a column.
\<close>

fun union_columns :: "string list \<Rightarrow> string list \<Rightarrow> string list" where
  "union_columns acc [] = acc"
| "union_columns acc (c # cs) =
     (if c \<in> set acc then union_columns acc cs else union_columns (acc @ [c]) cs)"

definition reindex_row :: "string list \<Rightarrow> string list \<Rightarrow> pyval list \<Rightarrow> pyval list" where
  "reindex_row all_cols cols row =
     map (\<lambda>c. case index_of c cols of None \<Rightarrow> PFloat ''nan'' | Some i \<Rightarrow> cell_at row i) all_cols"

definition concat_frames :: "frame list \<Rightarrow> frame" where
  "concat_frames dfs =
     (let all_cols = union_columns [] (concat (map columns dfs))
      in \<lparr>columns = all_cols,
          rows = concat (map (\<lambda>df. map (reindex_row all_cols (columns df)) (rows df)) dfs)\<rparr>)"

text \<open>
  The loading loop of \<open>merge_checkpoints\<close>: a file that \<open>pd.read_csv\<close> raises on is
  reported and skipped.
\<close>

fun load_loop :: "filesystem \<Rightarrow> string list \<Rightarrow> frame list \<Rightarrow> frame list" where
  "load_loop fs [] dfs = dfs"
| "load_loop fs (f # files) dfs =
     (case read_csv fs f of
        Inr df \<Rightarrow> load_loop fs files (dfs @ [df])
      | Inl e \<Rightarrow> load_loop fs files dfs)"

text \<open>
  \<open>merge_checkpoints(job_id, output_path)\<close>: the file system afterwards and the returned
  flag. Writing the output is taken to succeed.
\<close>

definition merge_checkpoints ::
  "serializer \<Rightarrow> filesystem \<Rightarrow> string \<Rightarrow> string \<Rightarrow> filesystem \<times> bool" where
  "merge_checkpoints self fs job_id output_path =
     (let checkpoint_files = list_checkpoints self fs job_id in
      if checkpoint_files = [] then (fs, False)
      else
        let dfs = load_loop fs checkpoint_files [] in
        if dfs \<noteq> [] then (to_csv fs output_path (concat_frames dfs), True)
        else (fs, False))"

text \<open>
  \<open>should_checkpoint(current_row_count, total_rows)\<close>. The modulo is evaluated first and
  raises on an interval of zero.
\<close>

definition should_checkpoint :: "serializer \<Rightarrow> int \<Rightarrow> int \<Rightarrow> py_error + bool" where
  "should_checkpoint self current_row_count total_rows =
     (if checkpoint_interval self = 0 then Inl ZeroDivisionError
      else Inr (current_row_count mod checkpoint_interval self = 0
                \<or> current_row_count = total_rows))"

section \<open>Processor: rows to records\<close>

subsection \<open>Dictionaries and the external collaborators\<close>

text \<open>\<open>d.get(key, default)\<close>, \<open>d[key] = v\<close> and \<open>{col: v for col in cols}\<close>.\<close>

definition dict_get :: "pydict \<Rightarrow> string \<Rightarrow> pyval \<Rightarrow> pyval" where
  "dict_get d key dflt = (case map_of d key of Some v \<Rightarrow> v | None \<Rightarrow> dflt)"

definition dict_set :: "pydict \<Rightarrow> string \<Rightarrow> pyval \<Rightarrow> pydict" where
  "dict_set d key v = AList.update key v d"

definition dict_from_keys :: "string list \<Rightarrow> pyval \<Rightarrow> pydict" where
  "dict_from_keys cols v = fold (\<lambda>col d. dict_set d col v) cols []"

text \<open>
  \<open>x.get(key, default)\<close> on an arbitrary value: only a dictionary has \<open>get\<close>.
\<close>

definition py_get :: "pyval \<Rightarrow> string \<Rightarrow> pyval \<Rightarrow> py_error + pyval" where
  "py_get x key dflt =
     (case x of PDict d \<Rightarrow> Inr (dict_get d key dflt) | _ \<Rightarrow> Inl AttributeError)"

text \<open>
  What the processor does not own. \<open>chat k\<close> is the outcome of the \<open>k\<close>-th call of
  \<open>client.chat\<close> made during the run: \<open>Some content\<close> when the call returns a response whose
  message content is \<open>content\<close>, \<open>None\<close> when the call or the reading of the response
  raises. \<open>json_loads\<close> is \<open>json.loads\<close>, with \<open>None\<close> for a \<open>JSONDecodeError\<close>.
  \<open>pause_polls b\<close> says how the pause probe answers before batch \<open>b\<close>: \<open>Some n\<close> when it
  answers "paused" \<open>n\<close> times and then "go", \<open>None\<close> when it answers "paused" for ever.
  \<open>throughput b\<close> are the four throughput figures computed from the clock after batch \<open>b\<close>
  (rounded rows per second, tokens per second, tokens per row, and the token total).
\<close>

record externals =
  chat :: "nat \<Rightarrow> string option"
  json_loads :: "string \<Rightarrow> pyval option"
  pause_polls :: "nat \<Rightarrow> nat option"
  throughput :: "nat \<Rightarrow> pyval \<times> pyval \<times> pyval \<times> pyval"

text \<open>
  The fields of \<open>Processor\<close> that the processing reads. The validation rules map a rule
  name to its list of accepted values.
\<close>

record processor =
  retries :: int
  columns_to_code :: "string list"
  validation_rules :: "(string \<times> string list) list"
  not_applicable_defaults :: pydict

subsection \<open>Validation\<close>

text \<open>\<open>str.lower()\<close> on ASCII letters.\<close>

definition to_lower :: "char \<Rightarrow> char" where
  "to_lower c =
     (case index_of c ''ABCDEFGHIJKLMNOPQRSTUVWXYZ'' of
        Some i \<Rightarrow> ''abcdefghijklmnopqrstuvwxyz'' ! i
      | None \<Rightarrow> c)"

definition lower :: "string \<Rightarrow> string" where
  "lower s = map to_lower s"

text \<open>
  \<open>first_column = self.columns_to_code[0] if self.columns_to_code else None\<close>, used as
  \<open>first_column and ...\<close>: the guard holds when the list is not empty and its first name
  is not the empty string.
\<close>

definition first_column :: "processor \<Rightarrow> string option" where
  "first_column self =
     (case columns_to_code self of [] \<Rightarrow> None | c # cs \<Rightarrow> if c = [] then None else Some c)"

text \<open>
  Step 1 of \<open>validate_processed_data\<close>: with the first column at \<open>N\<close>, every other
  configured column that is neither \<open>-\<close> nor \<open>ERROR_MISSING_KEY\<close> becomes \<open>-\<close>.
\<close>

definition coerce_not_applicable :: "pydict \<Rightarrow> string list \<Rightarrow> pydict" where
  "coerce_not_applicable processed_data cols =
     fold (\<lambda>col d.
             let current_value = dict_get d col (PStr [])
             in if current_value \<noteq> PStr ''-'' \<and> current_value \<noteq> PStr ''ERROR_MISSING_KEY''
                then dict_set d col (PStr ''-'') else d)
          cols processed_data"

text \<open>Step 2: the two hard-wired relationships between columns.\<close>

definition has_key :: "pydict \<Rightarrow> string \<Rightarrow> bool" where
  "has_key d key = (map_of d key \<noteq> None)"

definition enforce_comparative :: "pydict \<Rightarrow> pydict" where
  "enforce_comparative d =
     (if has_key d ''Comparative_Mention'' \<and> has_key d ''Competitor_Named'' then
        if dict_get d ''Comparative_Mention'' PNone = PStr ''Y'' then
          (if dict_get d ''Competitor_Named'' PNone \<in> {PStr ''NONE'', PStr ''-'', PStr []}
           then dict_set d ''Competitor_Named'' (PStr ''Other'') else d)
        else if dict_get d ''Comparative_Mention'' PNone = PStr ''N'' then
          (let d1 = (if dict_get d ''Competitor_Named'' PNone \<noteq> PStr ''NONE''
                     then dict_set d ''Competitor_Named'' (PStr ''NONE'') else d)
           in if has_key d1 ''Competitive_Position''
                 \<and> dict_get d1 ''Competitive_Position'' PNone \<noteq> PStr ''-''
              then dict_set d1 ''Competitive_Position'' (PStr ''-'') else d1)
        else d
      else d)"

definition enforce_abandonment :: "pydict \<Rightarrow> pydict" where
  "enforce_abandonment d =
     (if has_key d ''Abandonment_Mentioned'' \<and> has_key d ''Abandonment_Reason''
         \<and> dict_get d ''Abandonment_Mentioned'' PNone = PStr ''N''
         \<and> dict_get d ''Abandonment_Reason'' PNone \<noteq> PStr ''NONE''
      then dict_set d ''Abandonment_Reason'' (PStr ''NONE'') else d)"

text \<open>
  Step 3 changes nothing; it only logs. But where a column has a non-empty rule it calls
  \<open>value.startswith\<close>, which raises on a value that is not a string.
\<close>

definition rule_for :: "(string \<times> string list) list \<Rightarrow> string \<Rightarrow> string list option" where
  "rule_for rules col =
     (let col_lower = lower col;
          possible_keys = [''valid_'' @ col_lower, ''valid_'' @ col_lower @ ''s'',
                           col_lower @ ''_valid'', col_lower @ ''_options'']
      in case filter (\<lambda>key. map_of rules key \<noteq> None) possible_keys of
           [] \<Rightarrow> None
         | key # _ \<Rightarrow> map_of rules key)"

fun check_organic :: "(string \<times> string list) list \<Rightarrow> pydict \<Rightarrow> string list \<Rightarrow> py_error + unit" where
  "check_organic rules d [] = Inr ()"
| "check_organic rules d (col # cols) =
     (case rule_for rules col of
        None \<Rightarrow> check_organic rules d cols
      | Some valid_values \<Rightarrow>
          if valid_values = [] then check_organic rules d cols
          else (case dict_get d col (PStr []) of
                  PStr v \<Rightarrow> check_organic rules d cols
                | _ \<Rightarrow> Inl AttributeError))"

definition validate_processed_data :: "processor \<Rightarrow> pydict \<Rightarrow> py_error + pydict" where
  "validate_processed_data self processed_data =
     (if (case first_column self of
            None \<Rightarrow> False
          | Some c \<Rightarrow> dict_get processed_data c PNone = PStr ''N'')
      then Inr (coerce_not_applicable processed_data (tl (columns_to_code self)))
      else
        let d = enforce_abandonment (enforce_comparative processed_data)
        in case check_organic (validation_rules self) d (columns_to_code self) of
             Inl e \<Rightarrow> Inl e
           | Inr u \<Rightarrow> Inr d)"

text \<open>
  What both protocols do with one parsed result: the \<open>NOT_APPLICABLE\<close> shortcut, the
  extraction of the configured columns, and the validation.
\<close>

fun extract_columns :: "pyval \<Rightarrow> string list \<Rightarrow> pydict \<Rightarrow> py_error + pydict" where
  "extract_columns result [] processed_data = Inr processed_data"
| "extract_columns result (col # cols) processed_data =
     (case py_get result col (PStr ''ERROR_MISSING_KEY'') of
        Inl e \<Rightarrow> Inl e
      | Inr v \<Rightarrow> extract_columns result cols (dict_set processed_data col v))"

definition is_not_applicable :: "processor \<Rightarrow> pyval \<Rightarrow> py_error + bool" where
  "is_not_applicable self result =
     (case first_column self of
        None \<Rightarrow> Inr False
      | Some c \<Rightarrow>
          (case py_get result c PNone of
             Inl e \<Rightarrow> Inl e
           | Inr v \<Rightarrow> Inr (v = PStr ''NOT_APPLICABLE'')))"

definition process_result :: "processor \<Rightarrow> pyval \<Rightarrow> py_error + pydict" where
  "process_result self result =
     (case is_not_applicable self result of
        Inl e \<Rightarrow> Inl e
      | Inr True \<Rightarrow> Inr (not_applicable_defaults self)
      | Inr False \<Rightarrow>
          (case extract_columns result (columns_to_code self) [] of
             Inl e \<Rightarrow> Inl e
           | Inr processed_data \<Rightarrow> validate_processed_data self processed_data))"

subsection \<open>One row at a time\<close>

text \<open>The slice \<open>s[start_index : end_index + 1]\<close>.\<close>

definition slice_between :: "string \<Rightarrow> nat \<Rightarrow> nat \<Rightarrow> string" where
  "slice_between s start_index end_index = take (Suc end_index - start_index) (drop start_index s)"

text \<open>
  The parsing of \<open>process_single_row\<close>: the whole string first, then the span from the
  first \<open>{\<close> to the last \<open>}\<close>.
\<close>

definition parse_single_response :: "(string \<Rightarrow> pyval option) \<Rightarrow> string \<Rightarrow> py_error + pyval" where
  "parse_single_response loads content =
     (let json_string = strip content in
      case loads json_string of
        Some data_dict \<Rightarrow> Inr data_dict
      | None \<Rightarrow>
          (case (find_char CHR ''{'' json_string, rfind_char CHR ''}'' json_string) of
             (Some start_index, Some end_index) \<Rightarrow>
               (case loads (slice_between json_string start_index end_index) of
                  Some data_dict \<Rightarrow> Inr data_dict
                | None \<Rightarrow> Inl JSONDecodeError)
           | _ \<Rightarrow> Inl JSONDecodeError))"

text \<open>The body of the \<open>try\<close> of \<open>process_single_row\<close>, for the client call number \<open>calls\<close>.\<close>

definition single_attempt :: "processor \<Rightarrow> externals \<Rightarrow> nat \<Rightarrow> py_error + pydict" where
  "single_attempt self X calls =
     (case chat X calls of
        None \<Rightarrow> Inl ConnectionError
      | Some content \<Rightarrow>
          (case parse_single_response (json_loads X) content of
             Inl e \<Rightarrow> Inl e
           | Inr data_dict \<Rightarrow> process_result self data_dict))"

text \<open>
  \<open>for attempt in range(self.retries)\<close> of \<open>process_single_row\<close>. The result is the
  returned value and the number of client calls made so far; falling out of the loop
  returns \<open>None\<close>.
\<close>

fun single_attempts :: "processor \<Rightarrow> externals \<Rightarrow> nat list \<Rightarrow> nat \<Rightarrow> pyval \<times> nat" where
  "single_attempts self X [] calls = (PNone, calls)"
| "single_attempts self X (attempt # rest) calls =
     (case single_attempt self X calls of
        Inr processed \<Rightarrow> (PDict processed, Suc calls)
      | Inl e \<Rightarrow>
          if int attempt < retries self - 1 then single_attempts self X rest (Suc calls)
          else (PDict (dict_from_keys (columns_to_code self) (PStr ''ERROR_ALL_RETRIES_FAILED'')),
                Suc calls))"

definition process_single_row :: "processor \<Rightarrow> externals \<Rightarrow> nat \<Rightarrow> pyval \<times> nat" where
  "process_single_row self X calls = single_attempts self X [0..<nat (retries self)] calls"

subsection \<open>A batch in one call\<close>

text \<open>
  The parsing of \<open>process_batch\<close>: the whole string (a dictionary is wrapped into a
  one-element list), then the span from the first \<open>[\<close> to the last \<open>]\<close>, then the span
  from the first \<open>{\<close> to the last \<open>}\<close>, wrapped.
\<close>

definition parse_batch_response :: "(string \<Rightarrow> pyval option) \<Rightarrow> string \<Rightarrow> py_error + pyval" where
  "parse_batch_response loads content =
     (let json_string = strip content in
      case loads json_string of
        Some results_array \<Rightarrow>
          (case results_array of PDict d \<Rightarrow> Inr (PList [results_array]) | _ \<Rightarrow> Inr results_array)
      | None \<Rightarrow>
          (case (find_char CHR ''['' json_string, rfind_char CHR '']'' json_string) of
             (Some start_index, Some end_index) \<Rightarrow>
               (case loads (slice_between json_string start_index end_index) of
                  Some results_array \<Rightarrow> Inr results_array
                | None \<Rightarrow> Inl JSONDecodeError)
           | _ \<Rightarrow>
               (case (find_char CHR ''{'' json_string, rfind_char CHR ''}'' json_string) of
                  (Some start_index, Some end_index) \<Rightarrow>
                    (case loads (slice_between json_string start_index end_index) of
                       Some single_result \<Rightarrow> Inr (PList [single_result])
                     | None \<Rightarrow> Inl JSONDecodeError)
                | _ \<Rightarrow> Inl JSONDecodeError)))"

text \<open>\<open>len(x)\<close> and \<open>x[i]\<close> for a value that came out of \<open>json.loads\<close>.\<close>

definition py_len :: "pyval \<Rightarrow> py_error + nat" where
  "py_len x =
     (case x of
        PList xs \<Rightarrow> Inr (length xs)
      | PStr s \<Rightarrow> Inr (length s)
      | PDict d \<Rightarrow> Inr (length d)
      | _ \<Rightarrow> Inl TypeError)"

definition py_getitem :: "pyval \<Rightarrow> nat \<Rightarrow> py_error + pyval" where
  "py_getitem x i =
     (case x of
        PList xs \<Rightarrow> if i < length xs then Inr (xs ! i) else Inl IndexError
      | PStr s \<Rightarrow> if i < length s then Inr (PStr [s ! i]) else Inl IndexError
      | PDict d \<Rightarrow> Inl KeyError
      | _ \<Rightarrow> Inl TypeError)"

text \<open>
  \<open>while len(results_array) < batch_size: results_array.append({col:
  "ERROR_BATCH_MISMATCH" ...})\<close> on a list.
\<close>

function pad_loop :: "pyval \<Rightarrow> nat \<Rightarrow> pyval list \<Rightarrow> pyval list" where
  "pad_loop filler batch_size results_array =
     (if length results_array < batch_size
      then pad_loop filler batch_size (results_array @ [filler])
      else results_array)"
  by pat_completeness auto
termination
  by (relation "measure (\<lambda>(filler, batch_size, results_array). batch_size - length results_array)")
     auto

declare pad_loop.simps [simp del]

text \<open>
  The length reconciliation. A list is padded and cut; a string shorter than the batch has
  no \<open>append\<close>, a longer one is cut; a dictionary has neither \<open>append\<close> nor slices.
\<close>

definition reconcile_length :: "processor \<Rightarrow> nat \<Rightarrow> pyval \<Rightarrow> py_error + pyval" where
  "reconcile_length self batch_size results_array =
     (case py_len results_array of
        Inl e \<Rightarrow> Inl e
      | Inr n \<Rightarrow>
          if n \<noteq> batch_size then
            (case results_array of
               PList xs \<Rightarrow>
                 Inr (PList (take batch_size
                   (pad_loop (PDict (dict_from_keys (columns_to_code self)
                                      (PStr ''ERROR_BATCH_MISMATCH''))) batch_size xs)))
             | PStr s \<Rightarrow> if n < batch_size then Inl AttributeError else Inr (PStr (take batch_size s))
             | _ \<Rightarrow> if n < batch_size then Inl AttributeError else Inl TypeError)
          else Inr results_array)"

text \<open>\<open>for i, (idx, row) in enumerate(rows.iterrows())\<close>: one processed record per row.\<close>

fun process_each :: "processor \<Rightarrow> pyval \<Rightarrow> nat list \<Rightarrow> py_error + pyval list" where
  "process_each self results_array [] = Inr []"
| "process_each self results_array (i # is) =
     (case py_getitem results_array i of
        Inl e \<Rightarrow> Inl e
      | Inr result \<Rightarrow>
          (case process_result self result of
             Inl e \<Rightarrow> Inl e
           | Inr processed \<Rightarrow>
               (case process_each self results_array is of
                  Inl e \<Rightarrow> Inl e
                | Inr processed_results \<Rightarrow> Inr (PDict processed # processed_results))))"

text \<open>The body of the \<open>try\<close> of \<open>process_batch\<close>, for a batch of \<open>batch_size\<close> rows.\<close>

definition batch_attempt :: "processor \<Rightarrow> externals \<Rightarrow> nat \<Rightarrow> nat \<Rightarrow> py_error + pyval list" where
  "batch_attempt self X batch_size calls =
     (case chat X calls of
        None \<Rightarrow> Inl ConnectionError
      | Some content \<Rightarrow>
          (case parse_batch_response (json_loads X) content of
             Inl e \<Rightarrow> Inl e
           | Inr results_array \<Rightarrow>
               (case reconcile_length self batch_size results_array of
                  Inl e \<Rightarrow> Inl e
                | Inr reconciled \<Rightarrow> process_each self reconciled [0..<batch_size])))"

text \<open>The fallback: \<open>process_single_row\<close> for each row of the batch, in order.\<close>

fun single_rows :: "processor \<Rightarrow> externals \<Rightarrow> nat \<Rightarrow> nat \<Rightarrow> pyval list \<times> nat" where
  "single_rows self X 0 calls = ([], calls)"
| "single_rows self X (Suc n) calls =
     (let (result, calls1) = process_single_row self X calls;
          (fallback_results, calls2) = single_rows self X n calls1
      in (result # fallback_results, calls2))"

text \<open>
  \<open>for attempt in range(self.retries)\<close> of \<open>process_batch\<close>: the returned list (\<open>None\<close>
  when the loop ends without returning) and the number of client calls made so far.
\<close>

fun batch_attempts ::
  "processor \<Rightarrow> externals \<Rightarrow> nat \<Rightarrow> nat list \<Rightarrow> nat \<Rightarrow> pyval list option \<times> nat" where
  "batch_attempts self X batch_size [] calls = (None, calls)"
| "batch_attempts self X batch_size (attempt # rest) calls =
     (case batch_attempt self X batch_size calls of
        Inr processed_results \<Rightarrow> (Some processed_results, Suc calls)
      | Inl e \<Rightarrow>
          if int attempt < retries self - 1
          then batch_attempts self X batch_size rest (Suc calls)
          else (let (fallback_results, calls') = single_rows self X batch_size (Suc calls)
                in (Some fallback_results, calls')))"

definition process_batch ::
  "processor \<Rightarrow> externals \<Rightarrow> nat \<Rightarrow> nat \<Rightarrow> pyval list option \<times> nat" where
  "process_batch self X batch_size calls =
     batch_attempts self X batch_size [0..<nat (retries self)] calls"

subsection \<open>The main loop\<close>

text \<open>
  \<open>Serializer.prepare_checkpoint_data(results, indices, original_df, metadata_cols)\<close>.
  The dataframe is modelled by position: its index labels are distinct (it comes from
  \<open>pd.read_csv\<close> and a row filter), so \<open>original_df.loc[indices]\<close> are the rows at the
  positions of \<open>indices\<close>, which are passed here as \<open>checkpoint_rows\<close>.
  \<open>pd.DataFrame(results, index=indices)\<close> raises when the two lengths differ; a list of
  dictionaries gives one column per key, in order of first appearance; a list without
  dictionaries gives the single column \<open>0\<close>.
\<close>

definition select_columns :: "frame \<Rightarrow> string list \<Rightarrow> py_error + frame" where
  "select_columns df cols =
     (if \<forall>c \<in> set cols. c \<in> set (columns df)
      then Inr \<lparr>columns = cols, rows = map (reindex_row cols (columns df)) (rows df)\<rparr>
      else Inl KeyError)"

definition is_dict :: "pyval \<Rightarrow> bool" where
  "is_dict x = (case x of PDict d \<Rightarrow> True | _ \<Rightarrow> False)"

definition record_keys :: "pyval \<Rightarrow> string list" where
  "record_keys x = (case x of PDict d \<Rightarrow> map fst d | _ \<Rightarrow> [])"

definition record_cell :: "pyval \<Rightarrow> string \<Rightarrow> pyval" where
  "record_cell x col = (case x of PDict d \<Rightarrow> dict_get d col (PFloat ''nan'') | _ \<Rightarrow> PFloat ''nan'')"

definition frame_of_records :: "pyval list \<Rightarrow> frame" where
  "frame_of_records records =
     (if list_all is_dict records then
        let cols = union_columns [] (concat (map record_keys records))
        in \<lparr>columns = cols, rows = map (\<lambda>r. map (record_cell r) cols) records\<rparr>
      else \<lparr>columns = [''0''], rows = map (\<lambda>r. [r]) records\<rparr>)"

definition hconcat :: "frame \<Rightarrow> frame \<Rightarrow> frame" where
  "hconcat a b =
     \<lparr>columns = columns a @ columns b, rows = map (\<lambda>(x, y). x @ y) (zip (rows a) (rows b))\<rparr>"

definition prepare_checkpoint_data ::
  "pyval list \<Rightarrow> pyval list list \<Rightarrow> frame \<Rightarrow> string list \<Rightarrow> py_error + frame" where
  "prepare_checkpoint_data results checkpoint_rows original_df metadata_cols =
     (let checkpoint_df = \<lparr>columns = columns original_df, rows = checkpoint_rows\<rparr> in
      if length results \<noteq> length checkpoint_rows then Inl ValueError
      else
        (case select_columns checkpoint_df metadata_cols of
           Inl e \<Rightarrow> Inl e
         | Inr selected \<Rightarrow> Inr (hconcat selected (frame_of_records results))))"

text \<open>
  What \<open>process_dataframe\<close> calls on its monitor, and one saved part: the arguments and
  the result of one \<open>save_checkpoint\<close> call, with the positions
  \<open>last_checkpoint_row\<close> and \<open>current_row_num\<close> that delimit its rows.
\<close>

datatype monitor_call =
    UpdateProgress nat nat nat
  | RecordCheckpoint nat string

record saved_part =
  part_number_of :: nat
  part_path :: string
  part_first :: nat
  part_end :: nat
  part_frame :: frame

text \<open>
  The local variables of \<open>process_dataframe\<close>, the number of client calls made, the
  file system, and the logs of monitor calls and of saved parts.
\<close>

record run_state =
  results :: "pyval list"
  api_call_count :: nat
  last_checkpoint_row :: nat
  checkpoint_counter :: nat
  client_calls :: nat
  file_system :: filesystem
  saved_parts :: "saved_part list"
  monitor_calls :: "monitor_call list"

text \<open>
  How a run ends: it returns \<open>(results, api_call_count)\<close>, it raises, or it waits for
  ever in the pause loop.
\<close>

datatype outcome = Returned | Raised py_error | Hung

text \<open>
  \<open>checkpoint_metadata\<close>: a copy of \<open>metadata\<close> updated with the four throughput
  entries.
\<close>

definition checkpoint_metadata :: "externals \<Rightarrow> nat \<Rightarrow> pydict \<Rightarrow> pydict" where
  "checkpoint_metadata X batch_no metadata =
     (case throughput X batch_no of
        (rows_per_sec, tokens_per_sec, avg_tokens_per_row, tokens_total) \<Rightarrow>
          dict_set (dict_set (dict_set (dict_set metadata
            ''Rows_Per_Sec'' rows_per_sec)
            ''Tokens_Per_Sec'' tokens_per_sec)
            ''Avg_Tokens_Per_Row'' avg_tokens_per_row)
            ''Tokens_Total'' tokens_total)"

text \<open>
  The branch taken when \<open>should_checkpoint\<close> answers true: a progress update, then, when
  rows were processed since the last checkpoint, one more part.
\<close>

definition take_checkpoint ::
  "externals \<Rightarrow> serializer \<Rightarrow> frame \<Rightarrow> string \<Rightarrow> pydict \<Rightarrow> nat \<Rightarrow> run_state
     \<Rightarrow> run_state \<times> outcome option" where
  "take_checkpoint X ser df job_id metadata batch_no st =
     (let current_row_num = length (results st);
          total_rows = length (rows df);
          st1 = st\<lparr>monitor_calls := monitor_calls st
                     @ [UpdateProgress current_row_num total_rows (api_call_count st)]\<rparr>;
          new_results_count = current_row_num - last_checkpoint_row st
      in if 0 < new_results_count then
           let checkpoint_results = drop (length (results st) - new_results_count) (results st);
               checkpoint_rows = take (current_row_num - last_checkpoint_row st)
                                   (drop (last_checkpoint_row st) (rows df))
           in case prepare_checkpoint_data checkpoint_results checkpoint_rows df
                     [''RowID'', ''Sentiment''] of
                Inl e \<Rightarrow> (st1, Some (Raised e))
              | Inr checkpoint_data \<Rightarrow>
                  let counter = Suc (checkpoint_counter st);
                      (writes, checkpoint_file) =
                         save_checkpoint ser checkpoint_data job_id (int counter)
                           (checkpoint_metadata X batch_no metadata)
                  in (st1\<lparr>checkpoint_counter := counter,
                          file_system := run_writes (file_system st) writes,
                          saved_parts := saved_parts st
                            @ map (\<lambda>(path, written).
                                 \<lparr>part_number_of = counter, part_path = path,
                                  part_first = last_checkpoint_row st,
                                  part_end = current_row_num, part_frame = written\<rparr>) writes,
                          monitor_calls := monitor_calls st1
                            @ [RecordCheckpoint counter checkpoint_file],
                          last_checkpoint_row := current_row_num\<rparr>, None)
         else (st1, None))"

text \<open>The progress update at the end of each iteration.\<close>

definition progress_update :: "frame \<Rightarrow> nat \<Rightarrow> run_state \<Rightarrow> run_state" where
  "progress_update df batch_size st =
     (let current_row_num = length (results st);
          total_rows = length (rows df)
      in if 0 < total_rows then
           let update_frequency = max batch_size (total_rows div 20)
           in if current_row_num mod update_frequency = 0 \<or> current_row_num = total_rows
              then st\<lparr>monitor_calls := monitor_calls st
                        @ [UpdateProgress current_row_num total_rows (api_call_count st)]\<rparr>
              else st
         else st)"

text \<open>
  The choice between the two protocols in the loop body: \<open>process_single_row\<close> on the
  only row of the batch when \<open>batch_size == 1\<close>, \<open>process_batch\<close> otherwise. The rows
  themselves only reach the client through the prompt, so the model passes their number
  \<open>k\<close>.
\<close>

definition process_group ::
  "processor \<Rightarrow> externals \<Rightarrow> nat \<Rightarrow> nat \<Rightarrow> nat \<Rightarrow> pyval list option \<times> nat" where
  "process_group self X batch_size k calls =
     (if batch_size = 1
      then (case process_single_row self X calls of
              (processed_data, calls') \<Rightarrow> (Some [processed_data], calls'))
      else process_batch self X k calls)"

text \<open>
  One iteration of \<open>for i in range(0, len(row_indices), batch_size)\<close>, for a positive
  \<open>batch_size\<close>: the state afterwards, and \<open>Some\<close> outcome when the run ends here. The
  prompt builders read the columns \<open>RowID\<close>, \<open>Sentiment\<close> and \<open>Message\<close> of every row
  and raise outside any \<open>try\<close> when one is missing. A \<open>process_batch\<close> that returns
  \<open>None\<close> makes \<open>results.extend\<close> raise.
\<close>

definition run_batch ::
  "processor \<Rightarrow> externals \<Rightarrow> serializer \<Rightarrow> frame \<Rightarrow> nat \<Rightarrow> string \<Rightarrow> pydict \<Rightarrow> nat
     \<Rightarrow> run_state \<Rightarrow> run_state \<times> outcome option" where
  "run_batch self X ser df batch_size job_id metadata i st =
     (let batch_rows = take batch_size (drop i (rows df));
          batch_no = api_call_count st
      in if pause_polls X batch_no = None then (st, Some Hung)
         else if \<not> (\<forall>c \<in> set [''RowID'', ''Sentiment'', ''Message'']. c \<in> set (columns df))
         then (st, Some (Raised KeyError))
         else
           (case process_group self X batch_size (length batch_rows) (client_calls st) of
              (None, calls) \<Rightarrow> (st\<lparr>client_calls := calls\<rparr>, Some (Raised TypeError))
            | (Some batch_results, calls) \<Rightarrow>
                let st1 = st\<lparr>results := results st @ batch_results,
                             api_call_count := Suc (api_call_count st),
                             client_calls := calls\<rparr>
                in case should_checkpoint ser (int (length (results st1)))
                          (int (length (rows df))) of
                     Inl e \<Rightarrow> (st1, Some (Raised e))
                   | Inr False \<Rightarrow> (progress_update df batch_size st1, None)
                   | Inr True \<Rightarrow>
                       (case take_checkpoint X ser df job_id metadata batch_no st1 of
                          (st2, Some out) \<Rightarrow> (st2, Some out)
                        | (st2, None) \<Rightarrow> (progress_update df batch_size st2, None))))"

function batch_loop ::
  "processor \<Rightarrow> externals \<Rightarrow> serializer \<Rightarrow> frame \<Rightarrow> nat \<Rightarrow> string \<Rightarrow> pydict \<Rightarrow> nat
     \<Rightarrow> run_state \<Rightarrow> run_state \<times> outcome" where
  "batch_loop self X ser df batch_size job_id metadata i st =
     (if 0 < batch_size \<and> i < length (rows df) then
        (case run_batch self X ser df batch_size job_id metadata i st of
           (st', Some out) \<Rightarrow> (st', out)
         | (st', None) \<Rightarrow> batch_loop self X ser df batch_size job_id metadata (i + batch_size) st')
      else (st, Returned))"
  by pat_completeness auto
termination
  by (relation "measure (\<lambda>(self, X, ser, df, batch_size, job_id, metadata, i, st).
                  length (rows df) - i)") auto

declare batch_loop.simps [simp del]

text \<open>
  \<open>process_dataframe(df, batch_size, monitor, serializer, job_id, metadata,
  pause_event)\<close>, started on the file system \<open>fs\<close>. \<open>range\<close> raises on a step of zero
  and is empty for a negative step. The returned pair is \<open>(results, api_call_count)\<close> of
  the final state.
\<close>

definition initial_state :: "filesystem \<Rightarrow> run_state" where
  "initial_state fs =
     \<lparr>results = [], api_call_count = 0, last_checkpoint_row = 0, checkpoint_counter = 0,
      client_calls = 0, file_system = fs, saved_parts = [], monitor_calls = []\<rparr>"

definition process_dataframe ::
  "processor \<Rightarrow> externals \<Rightarrow> serializer \<Rightarrow> filesystem \<Rightarrow> frame \<Rightarrow> int \<Rightarrow> string \<Rightarrow> pydict
     \<Rightarrow> run_state \<times> outcome" where
  "process_dataframe self X ser fs df batch_size job_id metadata =
     (if batch_size = 0 then (initial_state fs, Raised ValueError)
      else if batch_size < 0 then (initial_state fs, Returned)
      else batch_loop self X ser df (nat batch_size) job_id metadata 0 (initial_state fs))"

subsection \<open>What a run leaves behind\<close>

text \<open>
  The predicates used to state what holds of the saved parts and of the monitor calls at
  every point of the loop. \<open>chain s ps e\<close>: the parts \<open>ps\<close> cover the positions from \<open>s\<close>
  to \<open>e\<close> one after the other, none empty. \<open>part_built\<close>: the part's frame is what
  \<open>prepare_checkpoint_data\<close> and \<open>save_checkpoint\<close> make of the results and input rows at
  its positions. \<open>progress_within\<close>: a progress update reports no more rows than were
  processed, out of the number of input rows. \<open>rowid_first\<close>: the frame's first column is
  \<open>RowID\<close>.
\<close>

fun chain :: "nat \<Rightarrow> saved_part list \<Rightarrow> nat \<Rightarrow> bool" where
  "chain s [] e = (s = e)"
| "chain s (p # ps) e = (part_first p = s \<and> s < part_end p \<and> chain (part_end p) ps e)"

definition part_built ::
  "externals \<Rightarrow> serializer \<Rightarrow> frame \<Rightarrow> string \<Rightarrow> pydict \<Rightarrow> pyval list \<Rightarrow> saved_part \<Rightarrow> bool" where
  "part_built X ser df job_id metadata rs p =
     (part_end p \<le> length rs
      \<and> part_path p = get_checkpoint_filename ser job_id (int (part_number_of p))
      \<and> (\<exists>data batch_no.
            prepare_checkpoint_data
              (take (part_end p - part_first p) (drop (part_first p) rs))
              (take (part_end p - part_first p) (drop (part_first p) (rows df)))
              df [''RowID'', ''Sentiment''] = Inr data
            \<and> part_frame p = add_metadata data (checkpoint_metadata X batch_no metadata)))"

definition parts_ok ::
  "externals \<Rightarrow> serializer \<Rightarrow> frame \<Rightarrow> string \<Rightarrow> pydict \<Rightarrow> run_state \<Rightarrow> bool" where
  "parts_ok X ser df job_id metadata st =
     (last_checkpoint_row st \<le> length (results st)
      \<and> map part_number_of (saved_parts st) = [1..<Suc (checkpoint_counter st)]
      \<and> chain 0 (saved_parts st) (last_checkpoint_row st)
      \<and> (\<forall>p \<in> set (saved_parts st). part_built X ser df job_id metadata (results st) p))"

fun progress_within :: "nat \<Rightarrow> nat \<Rightarrow> monitor_call \<Rightarrow> bool" where
  "progress_within n len (UpdateProgress c t a) = (c \<le> len \<and> t = n)"
| "progress_within n len (RecordCheckpoint k f) = True"

definition calls_ok :: "frame \<Rightarrow> run_state \<Rightarrow> bool" where
  "calls_ok df st =
     list_all (progress_within (length (rows df)) (length (results st))) (monitor_calls st)"

definition rowid_first :: "frame \<Rightarrow> bool" where
  "rowid_first fr = ((\<exists>cs. columns fr = ''RowID'' # cs) \<and> (\<forall>r \<in> set (rows fr). r \<noteq> []))"

text \<open>Inputs of the evaluated examples: a client that always raises, and a small table.\<close>

definition example_processor :: processor where
  "example_processor =
     \<lparr>retries = 1, columns_to_code = [''A''], validation_rules = [], not_applicable_defaults = []\<rparr>"

definition failing_client :: externals where
  "failing_client =
     \<lparr>chat = (\<lambda>k. None), json_loads = (\<lambda>s. None), pause_polls = (\<lambda>b. Some 0),
      throughput = (\<lambda>b. (PNone, PNone, PNone, PNone))\<rparr>"

definition example_frame :: "int list \<Rightarrow> frame" where
  "example_frame ids =
     \<lparr>columns = [''RowID'', ''Sentiment'', ''Message''],
      rows = map (\<lambda>i. [PInt i, PStr ''pos'', PStr ''m'']) ids\<rparr>"

text \<open>
  Where the loop saves parts when nothing fails, as a function of the checkpoint interval,
  the number of rows \<open>n\<close> and the batch size alone: the loop's own control flow with the
  processing left out. Each entry is a part number with the positions
  \<open>last_checkpoint_row\<close> and \<open>current_row_num\<close> of that part. \<open>part_bounds\<close> reads the
  same triples off the parts a run saved.
\<close>

function checkpoint_schedule :: "int \<Rightarrow> nat \<Rightarrow> nat \<Rightarrow> nat \<Rightarrow> nat \<Rightarrow> nat \<Rightarrow> (nat \<times> nat \<times> nat) list" where
  "checkpoint_schedule interval n batch_size i lst counter =
     (if 0 < batch_size \<and> i < n then
        let cur = min (i + batch_size) n in
        if (int cur mod interval = 0 \<or> cur = n) \<and> lst < cur
        then (Suc counter, lst, cur) # checkpoint_schedule interval n batch_size (i + batch_size) cur (Suc counter)
        else checkpoint_schedule interval n batch_size (i + batch_size) lst counter
      else [])"
  by pat_completeness auto
termination
  by (relation "measure (\<lambda>(interval, n, batch_size, i, lst, counter). n - i)") auto

declare checkpoint_schedule.simps [simp del]

definition part_bounds :: "run_state \<Rightarrow> (nat \<times> nat \<times> nat) list" where
  "part_bounds st = map (\<lambda>p. (part_number_of p, part_first p, part_end p)) (saved_parts st)"

section \<open>Worker: one range, one status file\<close>

text \<open>
  The status document of \<open>WorkerStatus\<close>, without its time stamps and floating-point
  figures (\<open>started_at\<close>, \<open>updated_at\<close>, \<open>progress_pct\<close>, the throughput figures,
  \<open>eta_seconds\<close>). The fields carry the prefix \<open>ws\<close>.
\<close>

datatype worker_state = Initializing | Running | Completed | Failed

record status_doc =
  ws_state :: worker_state
  ws_row_start :: int
  ws_row_end :: int
  ws_current_row :: int
  ws_rows_processed :: int
  ws_total_rows :: int
  ws_api_calls :: int
  ws_errors :: nat
  ws_last_error :: "string option"
  ws_output_file :: "string option"
  ws_checkpoints :: "string list"

text \<open>
  A \<open>WorkerStatus\<close> object: the dictionary \<open>self.status\<close>, and the documents that
  \<open>save\<close> has written to the status file so far, oldest first. (\<open>save\<close> swallows a
  failed write; the list then holds a document that never reached the file, so it holds
  at least every document the worker writes.)
\<close>

record status_writer =
  current :: status_doc
  documents :: "status_doc list"

definition save :: "status_writer \<Rightarrow> status_writer" where
  "save w = w\<lparr>documents := documents w @ [current w]\<rparr>"

text \<open>\<open>WorkerStatus.__init__\<close>: the initial dictionary, saved at once.\<close>

definition new_status :: status_writer where
  "new_status =
     save \<lparr>current =
             \<lparr>ws_state = Initializing, ws_row_start = 0, ws_row_end = 0, ws_current_row = 0,
              ws_rows_processed = 0, ws_total_rows = 0, ws_api_calls = 0, ws_errors = 0,
              ws_last_error = None, ws_output_file = None, ws_checkpoints = []\<rparr>,
           documents = []\<rparr>"

text \<open>\<open>update(**kwargs)\<close>: the change \<open>f\<close> to the dictionary, then \<open>save\<close>.\<close>

definition update :: "(status_doc \<Rightarrow> status_doc) \<Rightarrow> status_writer \<Rightarrow> status_writer" where
  "update f w = save (w\<lparr>current := f (current w)\<rparr>)"

definition set_running :: "int \<Rightarrow> int \<Rightarrow> int \<Rightarrow> status_writer \<Rightarrow> status_writer" where
  "set_running row_start row_end n w =
     update (\<lambda>d. d\<lparr>ws_state := Running, ws_row_start := row_start, ws_row_end := row_end,
                    ws_total_rows := n, ws_current_row := row_start\<rparr>) w"

text \<open>
  \<open>set_progress\<close>: one \<open>update\<close> for the counts and, when \<open>metrics\<close> is given, a second
  one for the throughput figures, which changes none of the fields kept here.
\<close>

definition set_progress :: "int \<Rightarrow> int \<Rightarrow> int \<Rightarrow> bool \<Rightarrow> status_writer \<Rightarrow> status_writer" where
  "set_progress current_row processed api_calls metrics w =
     (let w1 = update (\<lambda>d. d\<lparr>ws_current_row := current_row, ws_rows_processed := processed,
                                ws_api_calls := api_calls\<rparr>) w
      in if metrics then update (\<lambda>d. d) w1 else w1)"

definition add_checkpoint :: "string \<Rightarrow> status_writer \<Rightarrow> status_writer" where
  "add_checkpoint checkpoint_file w =
     save (w\<lparr>current := (current w)\<lparr>ws_checkpoints := ws_checkpoints (current w) @ [checkpoint_file]\<rparr>\<rparr>)"

definition set_error :: "string \<Rightarrow> status_writer \<Rightarrow> status_writer" where
  "set_error error_msg w =
     update (\<lambda>d. d\<lparr>ws_last_error := Some error_msg\<rparr>)
       (w\<lparr>current := (current w)\<lparr>ws_errors := Suc (ws_errors (current w))\<rparr>\<rparr>)"

definition set_completed :: "string option \<Rightarrow> int \<Rightarrow> status_writer \<Rightarrow> status_writer" where
  "set_completed output_file processed w =
     update (\<lambda>d. d\<lparr>ws_state := Completed, ws_output_file := output_file,
                    ws_rows_processed := processed\<rparr>) w"

definition set_failed :: "string \<Rightarrow> status_writer \<Rightarrow> status_writer" where
  "set_failed error_msg w =
     update (\<lambda>d. d\<lparr>ws_state := Failed, ws_last_error := Some error_msg\<rparr>) w"

text \<open>
  \<open>MonitorBridge\<close>: what each monitor call of \<open>process_dataframe\<close> does to the worker
  status. \<open>update_progress\<close> passes \<open>current_row\<close> as \<open>rows_processed\<close> too, and
  \<open>process_dataframe\<close> always passes metrics. Nothing else writes the status while
  \<open>process_dataframe\<close> runs, so applying its monitor calls in order gives the documents
  written during the run.
\<close>

fun bridge_call :: "monitor_call \<Rightarrow> status_writer \<Rightarrow> status_writer" where
  "bridge_call (UpdateProgress current_row n api_calls) w =
     set_progress (int current_row) (int current_row) (int api_calls) True w"
| "bridge_call (RecordCheckpoint checkpoint_num checkpoint_file) w =
     add_checkpoint checkpoint_file w"

definition bridge_calls :: "monitor_call list \<Rightarrow> status_writer \<Rightarrow> status_writer" where
  "bridge_calls calls w = fold bridge_call calls w"

text \<open>
  The worker's configuration, and what its start-up meets: whether the prompts
  configuration loads, what \<open>load_data\<close> returns or raises (its filtering of the input to
  the row range is not modelled; any frame may come out of it), and whether the
  connection check of \<open>Processor.__init__\<close> passes.
\<close>

record worker_config =
  cfg_worker_id :: int
  cfg_row_start :: int
  cfg_row_end :: int
  cfg_model :: string
  cfg_batch_size :: int
  cfg_checkpoint_dir :: string
  cfg_checkpoint_interval :: int
  cfg_output_path :: string
  cfg_run_id :: string

record worker_world =
  prompts_load :: bool
  load_data :: "py_error + frame"
  ollama_connects :: bool

text \<open>\<open>str(n)\<close> for an integer, and the worker's \<open>job_id\<close> and checkpoint metadata.\<close>

definition str_int :: "int \<Rightarrow> string" where
  "str_int n = (if 0 \<le> n then digits_of (nat n) else CHR ''-'' # digits_of (nat (- n)))"

definition worker_job_id :: "worker_config \<Rightarrow> string" where
  "worker_job_id cfg =
     str_int (cfg_row_start cfg) @ ''-'' @ str_int (cfg_row_end cfg) @ ''_w''
       @ str_int (cfg_worker_id cfg) @ ''_'' @ cfg_run_id cfg"

definition worker_metadata :: "worker_config \<Rightarrow> pydict" where
  "worker_metadata cfg =
     [(''Model_Name'', PStr (cfg_model cfg)), (''Batch_Size'', PInt (cfg_batch_size cfg)),
      (''Worker_ID'', PInt (cfg_worker_id cfg)), (''Run_ID'', PStr (cfg_run_id cfg))]"

text \<open>The exception's type name, which starts the recorded error message.\<close>

fun error_name :: "py_error \<Rightarrow> string" where
  "error_name ZeroDivisionError = ''ZeroDivisionError''"
| "error_name ValueError = ''ValueError''"
| "error_name TypeError = ''TypeError''"
| "error_name AttributeError = ''AttributeError''"
| "error_name KeyError = ''KeyError''"
| "error_name IndexError = ''IndexError''"
| "error_name JSONDecodeError = ''JSONDecodeError''"
| "error_name ConnectionError = ''ConnectionError''"
| "error_name FileNotFoundError = ''FileNotFoundError''"
| "error_name ParserError = ''ParserError''"

text \<open>
  How \<open>Worker.run\<close> ends: it returns success, it returns failure after writing the
  \<open>failed\<close> status, it dies in its own exception handler (\<open>monitor.finish()\<close> raises when
  the monitor was never started, and \<open>set_failed\<close> is not reached), or it never returns.
\<close>

datatype run_result = Success | Failure | Crashed | Never_returns

text \<open>
  \<open>Worker.__init__\<close> followed by \<open>Worker.run\<close>: the worker status with every document
  written, the file system, and how the run ends. \<open>self\<close> is the processor that
  \<open>Processor(...)\<close> builds from the prompts configuration.
\<close>

definition worker_run ::
  "worker_config \<Rightarrow> worker_world \<Rightarrow> processor \<Rightarrow> externals \<Rightarrow> filesystem
     \<Rightarrow> status_writer \<times> filesystem \<times> run_result" where
  "worker_run cfg world self X fs =
     (let w0 = new_status in
      if \<not> prompts_load world then (w0, fs, Crashed)
      else case load_data world of
        Inl e \<Rightarrow> (w0, fs, Crashed)
      | Inr df \<Rightarrow>
          let n = length (rows df) in
          if n = 0 then (set_completed None 0 w0, fs, Success)
          else
            let w1 = update (\<lambda>d. d\<lparr>ws_row_start := cfg_row_start cfg,
                                      ws_row_end := cfg_row_end cfg\<rparr>) w0;
                w2 = set_running (ws_row_start (current w1)) (ws_row_end (current w1)) (int n) w1
            in if \<not> ollama_connects world then (set_failed (error_name ConnectionError) w2, fs, Failure)
               else
                 let ser = \<lparr>checkpoint_dir = cfg_checkpoint_dir cfg,
                            checkpoint_interval = cfg_checkpoint_interval cfg\<rparr>;
                     job_id = worker_job_id cfg
                 in case process_dataframe self X ser fs df (cfg_batch_size cfg) job_id
                           (worker_metadata cfg) of
                      (st, out) \<Rightarrow>
                        let w3 = bridge_calls (monitor_calls st) w2 in
                        (case out of
                           Hung \<Rightarrow> (w3, file_system st, Never_returns)
                         | Raised e \<Rightarrow> (set_failed (error_name e) w3, file_system st, Failure)
                         | Returned \<Rightarrow>
                             (case merge_checkpoints ser (file_system st) job_id
                                     (cfg_output_path cfg) of
                                (fs', merged) \<Rightarrow>
                                  (set_completed (Some (cfg_output_path cfg))
                                     (int (length (results st))) w3, fs', Success))))"

text \<open>
  The property of one status document that the specification asks for, in the direction
  that holds: no more rows processed than the total, and all of them once completed.
\<close>

definition doc_ok :: "status_doc \<Rightarrow> bool" where
  "doc_ok d = (ws_rows_processed d \<le> ws_total_rows d
               \<and> (ws_state d = Completed \<longrightarrow> ws_rows_processed d = ws_total_rows d))"

text \<open>
  What holds of a status writer between two calls of the worker: every document written so
  far is as above, the worker is not yet \<open>completed\<close>, the total is \<open>n\<close> and no more than
  \<open>n\<close> rows are counted as processed.
\<close>

definition writer_ok :: "int \<Rightarrow> status_writer \<Rightarrow> bool" where
  "writer_ok n w =
     (list_all doc_ok (documents w) \<and> ws_state (current w) \<noteq> Completed
      \<and> ws_total_rows (current w) = n \<and> ws_rows_processed (current w) \<le> n)"

text \<open>The first document written is the one of \<open>WorkerStatus.__init__\<close>.\<close>

definition first_doc :: "status_writer \<Rightarrow> bool" where
  "first_doc w = (documents w \<noteq> [] \<and> hd (documents w) = current new_status)"

text \<open>
  A worker for rows 1 to 3, in batches of 2 with a checkpoint every 2 rows, whose
  start-up succeeds; and the state and the two counts of each document of a status writer.
\<close>

definition example_config :: worker_config where
  "example_config =
     \<lparr>cfg_worker_id = 1, cfg_row_start = 1, cfg_row_end = 3, cfg_model = ''m'',
      cfg_batch_size = 2, cfg_checkpoint_dir = ''ck'', cfg_checkpoint_interval = 2,
      cfg_output_path = ''out/o.csv'', cfg_run_id = ''r''\<rparr>"

definition example_world :: worker_world where
  "example_world =
     \<lparr>prompts_load = True, load_data = Inr (example_frame [1, 2, 3]), ollama_connects = True\<rparr>"

definition status_summary :: "status_writer \<Rightarrow> (worker_state \<times> int \<times> int) list" where
  "status_summary w = map (\<lambda>d. (ws_state d, ws_rows_processed d, ws_total_rows d)) (documents w)"

section \<open>Properties of range planning\<close>

lemma ranges_loop_acc:
  "ranges_loop b r is s acc = acc @ ranges_loop b r is s []"
proof (induction "is" arbitrary: s acc)
  case Nil
  then show ?case by simp
next
  case (Cons i "is")
  show ?case
    by (simp add: Let_def Cons.IH [of _ "acc @ _"] Cons.IH [of _ "[_]"])
qed

lemma ranges_loop_upt:
  "0 \<le> r \<Longrightarrow>
   ranges_loop b r [a..<a + n] (1 + int a * b + min (int a) r) [] = map (nth_range b r) [a..<a + n]"
proof (induction n arbitrary: a)
  case 0
  then show ?case by simp
next
  case (Suc n)
  have upt: "[a..<a + Suc n] = a # [Suc a..<Suc a + n]"
    by (simp add: upt_conv_Cons)
  have start: "1 + int a * b + min (int a) r + b + (if int a < r then 1 else 0) - 1 + 1
      = 1 + int (Suc a) * b + min (int (Suc a)) r"
    using Suc.prems by (simp add: algebra_simps min_def)
  have "ranges_loop b r [a..<a + Suc n] (1 + int a * b + min (int a) r) []
      = nth_range b r a
        # ranges_loop b r [Suc a..<Suc a + n] (1 + int (Suc a) * b + min (int (Suc a)) r) []"
    unfolding upt
    apply (simp only: ranges_loop.simps Let_def start append_Nil)
    apply (subst ranges_loop_acc)
    using Suc.prems apply (simp add: nth_range_def algebra_simps min_def)
    done
  then show ?case
    using Suc.IH [OF Suc.prems, of "Suc a"] upt by simp
qed

lemma calculate_row_ranges_closed:
  assumes "1 \<le> n"
  shows "calculate_row_ranges t n = Inr (map (nth_range (t div n) (t mod n)) [0..<nat n])"
proof -
  have "0 \<le> t mod n" using assms by simp
  from ranges_loop_upt [OF this, of "t div n" 0 "nat n"] assms
  show ?thesis by (simp add: calculate_row_ranges_def Let_def)
qed

lemma nth_range_boundary:
  "range_start (nth_range b r k) = boundary b r k + 1"
  "range_end (nth_range b r k) = boundary b r (Suc k)"
  by (simp_all add: nth_range_def boundary_def algebra_simps)

lemma range_size_nth_range:
  "range_size (nth_range b r k) = boundary b r (Suc k) - boundary b r k"
  by (simp add: range_size_def nth_range_boundary)

lemma boundary_mono:
  assumes "0 \<le> b" "j \<le> k"
  shows "boundary b r j \<le> boundary b r k"
proof -
  have "int j * b \<le> int k * b" using assms by (simp add: mult_right_mono)
  moreover have "min (int j) r \<le> min (int k) r" using assms by simp
  ultimately show ?thesis by (simp add: boundary_def)
qed

lemma boundary_last:
  assumes "1 \<le> n"
  shows "boundary (t div n) (t mod n) (nat n) = t"
proof -
  have n: "int (nat n) = n" using assms by simp
  have "t mod n < n" using assms by simp
  then have "min n (t mod n) = t mod n" by simp
  then show ?thesis unfolding boundary_def n by simp
qed

lemma boundary_step:
  assumes "0 \<le> r"
  shows "boundary b r (Suc k) - boundary b r k = b + (if int k < r then 1 else 0)"
  using assms by (simp add: boundary_def algebra_simps min_def)

lemma boundary_union:
  assumes "0 \<le> b" "0 \<le> r"
  shows "(\<Union>k<n. {boundary b r k + 1 .. boundary b r (Suc k)}) = {1 .. boundary b r n}"
proof (induction n)
  case 0
  then show ?case by (simp add: boundary_def)
next
  case (Suc n)
  have a: "0 \<le> boundary b r n"
    using boundary_mono [OF assms(1), of 0 n r] assms(2) by (simp add: boundary_def)
  have b: "boundary b r n \<le> boundary b r (Suc n)"
    using boundary_mono [OF assms(1), of n "Suc n" r] by simp
  have "(\<Union>k<Suc n. {boundary b r k + 1 .. boundary b r (Suc k)})
     = {1 .. boundary b r n} \<union> {boundary b r n + 1 .. boundary b r (Suc n)}"
    using Suc.IH by (simp add: lessThan_Suc Un_commute)
  also have "\<dots> = {1 .. boundary b r (Suc n)}"
    using a b by auto
  finally show ?case .
qed

lemma boundary_disjoint:
  assumes "0 \<le> b" "j < k"
  shows "{boundary b r j + 1 .. boundary b r (Suc j)}
       \<inter> {boundary b r k + 1 .. boundary b r (Suc k)} = {}"
  using boundary_mono [OF assms(1), of "Suc j" k r] assms(2) by auto

lemma boundary_telescope:
  "sum_list (map (\<lambda>k. boundary b r (Suc k) - boundary b r k) [0..<n])
     = boundary b r n - boundary b r 0"
  by (induction n) simp_all

lemma filter_less_upt:
  "m \<le> n \<Longrightarrow> filter (\<lambda>k. k < m) [0..<n] = [0..<m]"
proof (induction n)
  case 0
  then show ?case by simp
next
  case (Suc n)
  show ?case
  proof (cases "m = Suc n")
    case True
    then show ?thesis by (simp cong: filter_cong)
  next
    case False
    then have "m \<le> n" using Suc.prems by simp
    then show ?thesis using Suc.IH by simp
  qed
qed

text \<open>
  C1. With at least as many rows as workers (and at least one worker), auto planning
  returns one range per worker; the ranges start at row 1, end at \<open>total_rows\<close>, each
  starts right after the previous one ends, none is empty, range \<open>k\<close> (counted from 0)
  holds \<open>total_rows div num_workers\<close> rows plus one more when \<open>k\<close> is below the
  remainder, and the ranges are pairwise disjoint and together cover exactly the rows
  \<open>1 .. total_rows\<close>. For 100 rows and 3 workers the plan is [1,34], [35,67], [68,100].
\<close>

theorem calculate_row_ranges_partition:
  "(1 \<le> num_workers \<and> num_workers \<le> total_rows \<longrightarrow>
     (\<exists>rs. calculate_row_ranges total_rows num_workers = Inr rs
      \<and> length rs = nat num_workers
      \<and> range_start (rs ! 0) = 1
      \<and> range_end (rs ! (length rs - 1)) = total_rows
      \<and> (\<forall>k. Suc k < length rs \<longrightarrow> range_start (rs ! Suc k) = range_end (rs ! k) + 1)
      \<and> (\<forall>k < length rs. range_start (rs ! k) \<le> range_end (rs ! k)
            \<and> range_size (rs ! k) = total_rows div num_workers
                 + (if int k < total_rows mod num_workers then 1 else 0))
      \<and> (\<forall>j < length rs. \<forall>k < length rs. j \<noteq> k \<longrightarrow>
            range_rows (rs ! j) \<inter> range_rows (rs ! k) = {})
      \<and> (\<Union>k < length rs. range_rows (rs ! k)) = {1 .. total_rows}))
   \<and> calculate_row_ranges 100 3 =
         Inr [\<lparr>range_start = 1, range_end = 34, worker_id = 1\<rparr>,
              \<lparr>range_start = 35, range_end = 67, worker_id = 2\<rparr>,
              \<lparr>range_start = 68, range_end = 100, worker_id = 3\<rparr>]"
  (is "(?H \<longrightarrow> ?C) \<and> ?E")
proof
  show "?H \<longrightarrow> ?C"
  proof
    assume h: ?H
    let ?b = "total_rows div num_workers" and ?r = "total_rows mod num_workers"
    let ?rs = "map (nth_range ?b ?r) [0..<nat num_workers]"
    have n: "1 \<le> num_workers" using h by simp
    have r0: "0 \<le> ?r" using n by simp
    have b1: "1 \<le> ?b" using h pos_imp_zdiv_pos_iff [of num_workers total_rows] by simp
    have b0: "0 \<le> ?b" using b1 by simp
    have len: "length ?rs = nat num_workers" by simp
    have c1: "calculate_row_ranges total_rows num_workers = Inr ?rs"
      by (rule calculate_row_ranges_closed [OF n])
    have c3: "range_start (?rs ! 0) = 1"
      using n by (simp add: nth_range_def)
    have "range_end (?rs ! (nat num_workers - 1)) = boundary ?b ?r (Suc (nat num_workers - 1))"
      using n by (simp add: nth_range_boundary)
    also have "Suc (nat num_workers - 1) = nat num_workers" using n by simp
    finally have c4: "range_end (?rs ! (length ?rs - 1)) = total_rows"
      using boundary_last [OF n, of total_rows] by simp
    have c5: "range_start (?rs ! Suc k) = range_end (?rs ! k) + 1" if "Suc k < length ?rs" for k
      using that by (simp add: nth_range_boundary)
    have c6: "range_start (?rs ! k) \<le> range_end (?rs ! k)
              \<and> range_size (?rs ! k) = ?b + (if int k < ?r then 1 else 0)"
      if "k < length ?rs" for k
    proof -
      have "boundary ?b ?r (Suc k) - boundary ?b ?r k = ?b + (if int k < ?r then 1 else 0)"
        by (rule boundary_step [OF r0])
      moreover from this b1 have "boundary ?b ?r k + 1 \<le> boundary ?b ?r (Suc k)"
        by (cases "int k < ?r") simp_all
      ultimately show ?thesis
        using that by (simp add: nth_range_boundary range_size_def)
    qed
    have rows: "range_rows (?rs ! k) = {boundary ?b ?r k + 1 .. boundary ?b ?r (Suc k)}"
      if "k < length ?rs" for k
      using that by (simp add: range_rows_def nth_range_boundary)
    have c7: "range_rows (?rs ! j) \<inter> range_rows (?rs ! k) = {}"
      if "j < length ?rs" "k < length ?rs" "j \<noteq> k" for j k
    proof (cases "j < k")
      case True
      then show ?thesis using boundary_disjoint [OF b0 True, of ?r] rows that by simp
    next
      case False
      then have "k < j" using that by simp
      then show ?thesis using boundary_disjoint [OF b0 \<open>k < j\<close>, of ?r] rows that by auto
    qed
    have "(\<Union>k < length ?rs. range_rows (?rs ! k))
        = (\<Union>k < nat num_workers. {boundary ?b ?r k + 1 .. boundary ?b ?r (Suc k)})"
      using rows by simp
    also have "\<dots> = {1 .. boundary ?b ?r (nat num_workers)}"
      by (rule boundary_union [OF b0 r0])
    finally have c8: "(\<Union>k < length ?rs. range_rows (?rs ! k)) = {1 .. total_rows}"
      using boundary_last [OF n, of total_rows] by simp
    show ?C
      using c1 len c3 c4 c5 c6 c7 c8 by blast
  qed
  show ?E
    by (simp add: calculate_row_ranges_def upt_rec)
qed

theorem calculate_row_ranges_partition_witness:
  "(1::int) \<le> 4 \<and> (4::int) \<le> 10
   \<and> (\<exists>rs. calculate_row_ranges 10 4 = Inr rs
      \<and> length rs = 4
      \<and> range_start (rs ! 0) = 1
      \<and> range_end (rs ! 3) = 10
      \<and> (\<Union>k < length rs. range_rows (rs ! k)) = {1 .. 10})"
proof -
  from calculate_row_ranges_partition [of 4 10]
  obtain rs where "calculate_row_ranges 10 4 = Inr rs" "length rs = nat 4"
    "range_start (rs ! 0) = 1" "range_end (rs ! (length rs - 1)) = 10"
    "(\<Union>k < length rs. range_rows (rs ! k)) = {1 .. 10}"
    by auto
  then show ?thesis by auto
qed

text \<open>
  C2, as the code behaves. With fewer rows than workers (and at least one row) auto
  planning still returns one range per worker: the first \<open>total_rows\<close> ranges hold one
  row each, and every later range is the empty range
  \<open>[total_rows + 1, total_rows]\<close>, whose end is below its start. Exactly \<open>total_rows\<close>
  of the returned ranges are non-empty.
\<close>

theorem calculate_row_ranges_fewer_rows:
  assumes "0 < total_rows" and "total_rows < num_workers"
  shows "\<exists>rs. calculate_row_ranges total_rows num_workers = Inr rs
      \<and> length rs = nat num_workers
      \<and> (\<forall>k < length rs. int k < total_rows \<longrightarrow>
            rs ! k = \<lparr>range_start = int k + 1, range_end = int k + 1, worker_id = int k + 1\<rparr>)
      \<and> (\<forall>k < length rs. total_rows \<le> int k \<longrightarrow>
            rs ! k = \<lparr>range_start = total_rows + 1, range_end = total_rows,
                      worker_id = int k + 1\<rparr>)
      \<and> length (filter (\<lambda>r. range_start r \<le> range_end r) rs) = nat total_rows"
proof -
  let ?rs = "map (nth_range 0 total_rows) [0..<nat num_workers]"
  have n: "1 \<le> num_workers" using assms by simp
  have br: "total_rows div num_workers = 0" "total_rows mod num_workers = total_rows"
    using assms by simp_all
  have c1: "calculate_row_ranges total_rows num_workers = Inr ?rs"
    using calculate_row_ranges_closed [OF n, of total_rows] br by simp
  have c2: "length ?rs = nat num_workers" by simp
  have c3: "?rs ! k = \<lparr>range_start = int k + 1, range_end = int k + 1, worker_id = int k + 1\<rparr>"
    if "k < length ?rs" "int k < total_rows" for k
    using that by (simp add: nth_range_def)
  have c4: "?rs ! k = \<lparr>range_start = total_rows + 1, range_end = total_rows,
                        worker_id = int k + 1\<rparr>"
    if "k < length ?rs" "total_rows \<le> int k" for k
    using that by (simp add: nth_range_def)
  have nonempty: "(range_start (nth_range 0 total_rows k) \<le> range_end (nth_range 0 total_rows k))
      = (int k < total_rows)" for k
    by (simp add: nth_range_def min_def)
  have "filter (\<lambda>r. range_start r \<le> range_end r) ?rs
      = map (nth_range 0 total_rows) (filter (\<lambda>k. int k < total_rows) [0..<nat num_workers])"
    by (simp only: filter_map comp_def nonempty)
  moreover have "filter (\<lambda>k. int k < total_rows) [0..<nat num_workers] = [0..<nat total_rows]"
  proof -
    have "filter (\<lambda>k. k < nat total_rows) [0..<nat num_workers] = [0..<nat total_rows]"
      using assms by (simp add: filter_less_upt)
    moreover have "(\<lambda>k. int k < total_rows) = (\<lambda>k. k < nat total_rows)"
      using assms by auto
    ultimately show ?thesis by simp
  qed
  ultimately have c5: "length (filter (\<lambda>r. range_start r \<le> range_end r) ?rs) = nat total_rows"
    by simp
  show ?thesis
    using c1 c2 c3 c4 c5 by blast
qed

theorem calculate_row_ranges_fewer_rows_witness:
  "(0::int) < 2 \<and> (2::int) < 3
   \<and> (\<exists>rs. calculate_row_ranges 2 3 = Inr rs \<and> length rs = 3
         \<and> length (filter (\<lambda>r. range_start r \<le> range_end r) rs) = 2)"
proof -
  from calculate_row_ranges_fewer_rows [of 2 3]
  obtain rs where "calculate_row_ranges 2 3 = Inr rs" "length rs = nat 3"
    "length (filter (\<lambda>r. range_start r \<le> range_end r) rs) = nat 2"
    by auto
  then show ?thesis by auto
qed

text \<open>
  The claim as the specification words it fails for 2 rows and 3 workers: the plan has
  three ranges, not two, and the third one is [3,2].
\<close>

theorem calculate_row_ranges_fewer_rows_counterexample:
  "(0::int) < 2 \<and> (2::int) < 3
   \<and> calculate_row_ranges 2 3 =
       Inr [\<lparr>range_start = 1, range_end = 1, worker_id = 1\<rparr>,
            \<lparr>range_start = 2, range_end = 2, worker_id = 2\<rparr>,
            \<lparr>range_start = 3, range_end = 2, worker_id = 3\<rparr>]
   \<and> length [\<lparr>range_start = 1, range_end = 1, worker_id = 1\<rparr>,
            \<lparr>range_start = 2, range_end = 2, worker_id = 2\<rparr>,
            \<lparr>range_start = 3, range_end = 2, worker_id = 3\<rparr>] \<noteq> nat 2
   \<and> range_end \<lparr>range_start = 3, range_end = 2, worker_id = 3\<rparr>
       < range_start \<lparr>range_start = 3, range_end = 2, worker_id = 3\<rparr>"
  by (simp add: calculate_row_ranges_def upt_rec)

text \<open>
  C9. For any row count \<open>total_rows \<ge> 0\<close> and any worker count \<open>num_workers \<ge> 1\<close> the
  plan has exactly \<open>num_workers\<close> ranges, numbered 1, 2, ... in order; the first starts
  at row 1, each later one starts right after the previous one ends, the last ends at
  \<open>total_rows\<close>, and the sizes add up to \<open>total_rows\<close>. When there are fewer rows than
  workers, every range from position \<open>total_rows\<close> on is empty.
\<close>

theorem calculate_row_ranges_chain:
  assumes "0 \<le> total_rows" and "1 \<le> num_workers"
  shows "\<exists>rs. calculate_row_ranges total_rows num_workers = Inr rs
      \<and> length rs = nat num_workers
      \<and> map worker_id rs = map (\<lambda>k. int k + 1) [0..<nat num_workers]
      \<and> range_start (rs ! 0) = 1
      \<and> (\<forall>k. Suc k < length rs \<longrightarrow> range_start (rs ! Suc k) = range_end (rs ! k) + 1)
      \<and> range_end (rs ! (length rs - 1)) = total_rows
      \<and> sum_list (map range_size rs) = total_rows
      \<and> (total_rows < num_workers \<longrightarrow>
            (\<forall>k < length rs. total_rows \<le> int k \<longrightarrow>
               range_end (rs ! k) < range_start (rs ! k) \<and> range_size (rs ! k) = 0))"
proof -
  let ?b = "total_rows div num_workers" and ?r = "total_rows mod num_workers"
  let ?rs = "map (nth_range ?b ?r) [0..<nat num_workers]"
  have n: "1 \<le> num_workers" by (rule assms(2))
  have c1: "calculate_row_ranges total_rows num_workers = Inr ?rs"
    by (rule calculate_row_ranges_closed [OF n])
  have c2: "length ?rs = nat num_workers" by simp
  have c3: "map worker_id ?rs = map (\<lambda>k. int k + 1) [0..<nat num_workers]"
    by (simp add: nth_range_def)
  have c4: "range_start (?rs ! 0) = 1"
    using n by (simp add: nth_range_def)
  have c5: "range_start (?rs ! Suc k) = range_end (?rs ! k) + 1" if "Suc k < length ?rs" for k
    using that by (simp add: nth_range_boundary)
  have "range_end (?rs ! (nat num_workers - 1)) = boundary ?b ?r (Suc (nat num_workers - 1))"
    using n by (simp add: nth_range_boundary)
  also have "Suc (nat num_workers - 1) = nat num_workers" using n by simp
  finally have c6: "range_end (?rs ! (length ?rs - 1)) = total_rows"
    using boundary_last [OF n, of total_rows] by simp
  have "sum_list (map range_size ?rs)
      = sum_list (map (\<lambda>k. boundary ?b ?r (Suc k) - boundary ?b ?r k) [0..<nat num_workers])"
    by (simp add: comp_def range_size_nth_range)
  also have "\<dots> = boundary ?b ?r (nat num_workers) - boundary ?b ?r 0"
    by (rule boundary_telescope)
  also have "\<dots> = total_rows"
    using boundary_last [OF n, of total_rows] n by (simp add: boundary_def)
  finally have c7: "sum_list (map range_size ?rs) = total_rows" .
  have c8: "range_end (?rs ! k) < range_start (?rs ! k) \<and> range_size (?rs ! k) = 0"
    if "total_rows < num_workers" "k < length ?rs" "total_rows \<le> int k" for k
  proof -
    have "?b = 0" "?r = total_rows" using that(1) assms(1) by simp_all
    then show ?thesis
      using that by (simp add: nth_range_def range_size_def)
  qed
  show ?thesis
    using c1 c2 c3 c4 c5 c6 c7 c8 by blast
qed

theorem calculate_row_ranges_chain_witness:
  "(0::int) \<le> 0 \<and> (1::int) \<le> 3
   \<and> (\<exists>rs. calculate_row_ranges 0 3 = Inr rs
      \<and> length rs = 3
      \<and> map worker_id rs = [1, 2, 3]
      \<and> range_start (rs ! 0) = 1
      \<and> range_end (rs ! 2) = 0
      \<and> sum_list (map range_size rs) = 0)"
proof -
  from calculate_row_ranges_chain [of 0 3]
  obtain rs where "calculate_row_ranges 0 3 = Inr rs" "length rs = nat 3"
    "map worker_id rs = map (\<lambda>k. int k + 1) [0..<nat 3]"
    "range_start (rs ! 0) = 1" "range_end (rs ! (length rs - 1)) = 0"
    "sum_list (map range_size rs) = 0"
    by auto
  then show ?thesis by (auto simp: upt_rec)
qed

section \<open>Properties of the checkpoint store\<close>








lemma insert_sorted_not_Nil: "insert_sorted x ys \<noteq> []"
  by (cases ys) simp_all













section \<open>Properties of batch processing\<close>




lemma extract_columns_dict:
  "extract_columns (PDict m) cols acc
     = Inr (fold (\<lambda>c d. dict_set d c (dict_get m c (PStr ''ERROR_MISSING_KEY''))) cols acc)"
  by (induction cols arbitrary: acc) (simp_all add: py_get_def)



lemma check_organic_strings:
  assumes "\<And>c. \<exists>s. dict_get d c (PStr []) = PStr s"
  shows "check_organic rules d cols = Inr ()"
proof (induction cols)
  case Nil
  then show ?case by simp
next
  case (Cons col cols)
  obtain s where "dict_get d col (PStr []) = PStr s" using assms by blast
  then show ?case using Cons.IH by (simp split: option.splits)
qed







lemma process_each_length:
  "process_each self ra is = Inr rs \<Longrightarrow> length rs = length is"
  by (induction "is" arbitrary: rs) (auto split: sum.splits)

lemma batch_attempt_length:
  "batch_attempt self X batch_size calls = Inr rs \<Longrightarrow> length rs = batch_size"
  by (auto simp: batch_attempt_def split: option.splits sum.splits dest: process_each_length)

lemma single_rows_length:
  "length (fst (single_rows self X n calls)) = n"
proof (induction n arbitrary: calls)
  case 0
  then show ?case by simp
next
  case (Suc n)
  obtain r c1 where p: "process_single_row self X calls = (r, c1)" by (cases "process_single_row self X calls")
  obtain rs c2 where q: "single_rows self X n c1 = (rs, c2)" by (cases "single_rows self X n c1")
  from Suc.IH [of c1] q have "length rs = n" by simp
  then show ?case by (simp add: p q)
qed

lemma batch_attempts_length:
  "batch_attempts self X batch_size attempts calls = (Some rs, c) \<Longrightarrow> length rs = batch_size"
proof (induction attempts arbitrary: calls)
  case Nil
  then show ?case by simp
next
  case (Cons a attempts)
  show ?case
  proof (cases "batch_attempt self X batch_size calls")
    case (Inr ok)
    then show ?thesis using Cons.prems batch_attempt_length [OF Inr] by simp
  next
    case (Inl e)
    show ?thesis
    proof (cases "int a < retries self - 1")
      case True
      then show ?thesis using Cons Inl by simp
    next
      case False
      then show ?thesis
        using Cons.prems Inl single_rows_length [of self X batch_size "Suc calls"]
        by (auto split: prod.splits)
    qed
  qed
qed

lemma batch_attempts_returns:
  assumes "attempts \<noteq> []" "\<not> int (last attempts) < retries self - 1"
  shows "\<exists>rs c. batch_attempts self X batch_size attempts calls = (Some rs, c)"
  using assms
proof (induction attempts arbitrary: calls)
  case Nil
  then show ?case by simp
next
  case (Cons a attempts)
  show ?case
  proof (cases "batch_attempt self X batch_size calls")
    case (Inr ok)
    then show ?thesis by simp
  next
    case (Inl e)
    show ?thesis
    proof (cases "int a < retries self - 1")
      case True
      with Cons.prems have "attempts \<noteq> []" by auto
      with Cons.prems have "\<not> int (last attempts) < retries self - 1" by simp
      from Cons.IH [OF \<open>attempts \<noteq> []\<close> this] show ?thesis using Inl True by simp
    next
      case False
      then show ?thesis using Inl by (simp split: prod.splits)
    qed
  qed
qed

lemma process_batch_returns:
  assumes "1 \<le> retries self"
  shows "\<exists>rs c. process_batch self X batch_size calls = (Some rs, c) \<and> length rs = batch_size"
proof -
  let ?as = "[0..<nat (retries self)]"
  have ne: "?as \<noteq> []" using assms by simp
  have "last ?as = nat (retries self) - 1" using assms by (simp add: last_upt)
  then have "\<not> int (last ?as) < retries self - 1" using assms by simp
  from batch_attempts_returns [OF ne this] obtain rs c
    where r: "batch_attempts self X batch_size ?as calls = (Some rs, c)" by blast
  from batch_attempts_length [OF r] r show ?thesis by (simp add: process_batch_def)
qed

lemma process_batch_length:
  "process_batch self X batch_size calls = (Some rs, c) \<Longrightarrow> length rs = batch_size"
  unfolding process_batch_def by (rule batch_attempts_length)




text \<open>
  A JSON object all of whose values are strings is always processed without an exception,
  so an array of such objects meets the condition of the theorem above.
\<close>

lemma map_of_dict_set: "map_of (dict_set d k v) = (map_of d)(k \<mapsto> v)"
  by (simp add: dict_set_def update_conv')

lemma string_values_fold:
  assumes "\<And>k v. map_of acc k = Some v \<Longrightarrow> \<exists>s. v = PStr s"
    and "\<And>c. c \<in> set cols \<Longrightarrow> \<exists>s. f c = PStr s"
  shows "map_of (fold (\<lambda>c d. dict_set d c (f c)) cols acc) k = Some v \<Longrightarrow> \<exists>s. v = PStr s"
  using assms
proof (induction cols arbitrary: acc)
  case Nil
  then show ?case by simp
next
  case (Cons c cols)
  have "\<And>k v. map_of (dict_set acc c (f c)) k = Some v \<Longrightarrow> \<exists>s. v = PStr s"
    using Cons.prems(2,3) by (auto simp: map_of_dict_set split: if_splits)
  from Cons.IH [OF _ this] Cons.prems show ?case by simp
qed

lemma process_result_string_object:
  assumes "\<And>k v. map_of m k = Some v \<Longrightarrow> \<exists>s. v = PStr s"
  shows "\<exists>d. process_result self (PDict m) = Inr d"
proof -
  have "\<exists>na. is_not_applicable self (PDict m) = Inr na"
    by (cases "first_column self") (auto simp: is_not_applicable_def py_get_def)
  then obtain na where na: "is_not_applicable self (PDict m) = Inr na" ..
  let ?pd = "fold (\<lambda>c d. dict_set d c (dict_get m c (PStr ''ERROR_MISSING_KEY''))) (columns_to_code self) []"
  have ex: "extract_columns (PDict m) (columns_to_code self) [] = Inr ?pd"
    by (rule extract_columns_dict)
  have pd: "\<exists>s. v = PStr s" if "map_of ?pd k = Some v" for k v
  proof (rule string_values_fold [OF _ _ that])
    show "\<And>k v. map_of [] k = Some v \<Longrightarrow> \<exists>s. v = PStr s" by simp
    show "\<And>c. c \<in> set (columns_to_code self) \<Longrightarrow> \<exists>s. dict_get m c (PStr ''ERROR_MISSING_KEY'') = PStr s"
      using assms by (auto simp: dict_get_def split: option.splits)
  qed
  have c: "\<exists>s. v = PStr s" if "map_of (enforce_comparative ?pd) k = Some v" for k v
    using that pd
    by (auto simp: enforce_comparative_def Let_def map_of_dict_set split: if_splits)
  have a: "\<exists>s. v = PStr s" if "map_of (enforce_abandonment (enforce_comparative ?pd)) k = Some v" for k v
    using that c
    by (auto simp: enforce_abandonment_def map_of_dict_set split: if_splits)
  have "check_organic (validation_rules self) (enforce_abandonment (enforce_comparative ?pd))
          (columns_to_code self) = Inr ()"
  proof (rule check_organic_strings)
    fix col
    show "\<exists>s. dict_get (enforce_abandonment (enforce_comparative ?pd)) col (PStr []) = PStr s"
      using a [of col] by (auto simp: dict_get_def split: option.splits)
  qed
  then have "\<exists>d. validate_processed_data self ?pd = Inr d"
    by (simp add: validate_processed_data_def)
  then show ?thesis
    using na ex by (cases na) (auto simp: process_result_def)
qed

section \<open>Properties of the processing loop\<close>

lemma chain_append:
  "chain s ps m \<Longrightarrow> part_first p = m \<Longrightarrow> m < part_end p \<Longrightarrow> chain s (ps @ [p]) (part_end p)"
  by (induction ps arbitrary: s) auto

lemma part_built_append:
  "part_built X ser df job_id metadata rs p \<Longrightarrow> part_built X ser df job_id metadata (rs @ extra) p"
  by (auto simp: part_built_def)

lemma checkpoint_metadata_not_Nil: "checkpoint_metadata X b metadata \<noteq> []"
proof -
  have "AList.update k v al \<noteq> []" for k :: string and v :: pyval and al
    by (cases al) simp_all
  then show ?thesis
    by (simp add: checkpoint_metadata_def dict_set_def split: prod.splits)
qed

lemma progress_update_fields:
  "results (progress_update df b st) = results st"
  "api_call_count (progress_update df b st) = api_call_count st"
  "last_checkpoint_row (progress_update df b st) = last_checkpoint_row st"
  "checkpoint_counter (progress_update df b st) = checkpoint_counter st"
  "client_calls (progress_update df b st) = client_calls st"
  "file_system (progress_update df b st) = file_system st"
  "saved_parts (progress_update df b st) = saved_parts st"
  by (simp_all add: progress_update_def Let_def)

lemma progress_update_calls:
  "monitor_calls (progress_update df b st) = monitor_calls st
   \<or> monitor_calls (progress_update df b st)
      = monitor_calls st @ [UpdateProgress (length (results st)) (length (rows df)) (api_call_count st)]"
  by (simp add: progress_update_def Let_def)

lemma parts_ok_progress_update:
  "parts_ok X ser df job_id metadata (progress_update df b st) = parts_ok X ser df job_id metadata st"
  by (simp add: parts_ok_def progress_update_fields)

lemma calls_ok_progress_update:
  assumes "calls_ok df st"
  shows "calls_ok df (progress_update df b st)"
  using assms progress_update_calls [of df b st]
  by (auto simp: calls_ok_def progress_update_fields)

lemma progress_within_mono:
  "progress_within n len m \<Longrightarrow> len \<le> len' \<Longrightarrow> progress_within n len' m"
  by (cases m) auto

lemma save_checkpoint_eq:
  "save_checkpoint ser data job_id n (checkpoint_metadata X b metadata)
     = ([(get_checkpoint_filename ser job_id n, add_metadata data (checkpoint_metadata X b metadata))],
        get_checkpoint_filename ser job_id n)"
  by (simp add: save_checkpoint_def Let_def checkpoint_metadata_not_Nil)

lemma take_checkpoint_cases:
  fixes st :: run_state and df :: frame
  defines "cur \<equiv> length (results st)"
    and "lst \<equiv> last_checkpoint_row st"
    and "st1 \<equiv> st\<lparr>monitor_calls := monitor_calls st
                     @ [UpdateProgress (length (results st)) (length (rows df)) (api_call_count st)]\<rparr>"
  shows "(\<not> lst < cur \<and> take_checkpoint X ser df job_id metadata b st = (st1, None))
       \<or> (lst < cur \<and> (\<exists>e. prepare_checkpoint_data (drop (length (results st) - (cur - lst)) (results st))
                              (take (cur - lst) (drop lst (rows df))) df [''RowID'', ''Sentiment''] = Inl e
                   \<and> take_checkpoint X ser df job_id metadata b st = (st1, Some (Raised e))))
       \<or> (lst < cur \<and> (\<exists>data. prepare_checkpoint_data (drop (length (results st) - (cur - lst)) (results st))
                              (take (cur - lst) (drop lst (rows df))) df [''RowID'', ''Sentiment''] = Inr data
                   \<and> take_checkpoint X ser df job_id metadata b st =
                       (st1\<lparr>checkpoint_counter := Suc (checkpoint_counter st),
                            file_system := run_writes (file_system st)
                               [(get_checkpoint_filename ser job_id (int (Suc (checkpoint_counter st))),
                                 add_metadata data (checkpoint_metadata X b metadata))],
                            saved_parts := saved_parts st
                               @ [\<lparr>part_number_of = Suc (checkpoint_counter st),
                                   part_path = get_checkpoint_filename ser job_id (int (Suc (checkpoint_counter st))),
                                   part_first = lst, part_end = cur,
                                   part_frame = add_metadata data (checkpoint_metadata X b metadata)\<rparr>],
                            monitor_calls := monitor_calls st1
                               @ [RecordCheckpoint (Suc (checkpoint_counter st))
                                    (get_checkpoint_filename ser job_id (int (Suc (checkpoint_counter st))))],
                            last_checkpoint_row := cur\<rparr>, None)))"
proof (cases "lst < cur")
  case False
  then show ?thesis
    unfolding cur_def lst_def st1_def by (simp add: take_checkpoint_def Let_def)
next
  case True
  show ?thesis
  proof (cases "prepare_checkpoint_data (drop (length (results st) - (cur - lst)) (results st))
                  (take (cur - lst) (drop lst (rows df))) df [''RowID'', ''Sentiment'']")
    case (Inl e)
    then show ?thesis
      using True unfolding cur_def lst_def st1_def
      by (simp add: take_checkpoint_def Let_def)
  next
    case (Inr data)
    then show ?thesis
      using True unfolding cur_def lst_def st1_def
      by (simp add: take_checkpoint_def Let_def save_checkpoint_eq)
  qed
qed

lemma take_checkpoint_preserves:
  assumes ok: "parts_ok X ser df job_id metadata st"
    and calls: "calls_ok df st"
    and tc: "take_checkpoint X ser df job_id metadata b st = (st', out)"
  shows "parts_ok X ser df job_id metadata st' \<and> calls_ok df st'
       \<and> results st' = results st \<and> api_call_count st' = api_call_count st
       \<and> client_calls st' = client_calls st
       \<and> (out = None \<longrightarrow> last_checkpoint_row st' = length (results st))
       \<and> (out = None \<or> (\<exists>e. out = Some (Raised e)))"
proof -
  let ?cur = "length (results st)" and ?lst = "last_checkpoint_row st"
  let ?up = "UpdateProgress ?cur (length (rows df)) (api_call_count st)"
  let ?st1 = "st\<lparr>monitor_calls := monitor_calls st @ [?up]\<rparr>"
  have le: "?lst \<le> ?cur" using ok by (simp add: parts_ok_def)
  have ok1: "parts_ok X ser df job_id metadata ?st1"
    using ok by (simp add: parts_ok_def)
  have calls1: "calls_ok df ?st1"
    using calls by (simp add: calls_ok_def)
  from take_checkpoint_cases [of st X ser df job_id metadata b]
  consider (none) "\<not> ?lst < ?cur" "take_checkpoint X ser df job_id metadata b st = (?st1, None)"
    | (raised) e where "take_checkpoint X ser df job_id metadata b st = (?st1, Some (Raised e))"
    | (saved) data where "?lst < ?cur"
        "prepare_checkpoint_data (drop (length (results st) - (?cur - ?lst)) (results st))
           (take (?cur - ?lst) (drop ?lst (rows df))) df [''RowID'', ''Sentiment''] = Inr data"
        "take_checkpoint X ser df job_id metadata b st =
           (?st1\<lparr>checkpoint_counter := Suc (checkpoint_counter st),
                 file_system := run_writes (file_system st)
                    [(get_checkpoint_filename ser job_id (int (Suc (checkpoint_counter st))),
                      add_metadata data (checkpoint_metadata X b metadata))],
                 saved_parts := saved_parts st
                    @ [\<lparr>part_number_of = Suc (checkpoint_counter st),
                        part_path = get_checkpoint_filename ser job_id (int (Suc (checkpoint_counter st))),
                        part_first = ?lst, part_end = ?cur,
                        part_frame = add_metadata data (checkpoint_metadata X b metadata)\<rparr>],
                 monitor_calls := monitor_calls ?st1
                    @ [RecordCheckpoint (Suc (checkpoint_counter st))
                         (get_checkpoint_filename ser job_id (int (Suc (checkpoint_counter st))))],
                 last_checkpoint_row := ?cur\<rparr>, None)"
    by blast
  then show ?thesis
  proof cases
    case none
    with tc have "st' = ?st1" "out = None" by simp_all
    moreover have "?lst = ?cur" using none(1) le by simp
    ultimately show ?thesis using ok1 calls1 by simp
  next
    case (raised e)
    with tc have "st' = ?st1" "out = Some (Raised e)" by simp_all
    then show ?thesis using ok1 calls1 by simp
  next
    case (saved data)
    let ?p = "\<lparr>part_number_of = Suc (checkpoint_counter st),
               part_path = get_checkpoint_filename ser job_id (int (Suc (checkpoint_counter st))),
               part_first = ?lst, part_end = ?cur,
               part_frame = add_metadata data (checkpoint_metadata X b metadata)\<rparr>"
    from saved(3) tc have out: "out = None" by simp
    from saved(3) tc have f: "results st' = results st" "api_call_count st' = api_call_count st"
      "client_calls st' = client_calls st" "last_checkpoint_row st' = ?cur"
      "checkpoint_counter st' = Suc (checkpoint_counter st)"
      "saved_parts st' = saved_parts st @ [?p]"
      "monitor_calls st' = monitor_calls st @ [?up] @ [RecordCheckpoint (Suc (checkpoint_counter st))
            (get_checkpoint_filename ser job_id (int (Suc (checkpoint_counter st))))]"
      by auto
    have slice: "drop (length (results st) - (?cur - ?lst)) (results st)
        = take (?cur - ?lst) (drop ?lst (results st))"
      using le by simp
    have built: "part_built X ser df job_id metadata (results st) ?p"
      unfolding part_built_def using saved(2) slice by auto
    have nums: "map part_number_of (saved_parts st') = [1..<Suc (checkpoint_counter st')]"
      using ok by (simp add: parts_ok_def f)
    have ch: "chain 0 (saved_parts st') (last_checkpoint_row st')"
    proof -
      have "chain 0 (saved_parts st) ?lst" using ok by (simp add: parts_ok_def)
      from chain_append [OF this, of ?p] saved(1) show ?thesis by (simp add: f)
    qed
    have all: "\<forall>p \<in> set (saved_parts st'). part_built X ser df job_id metadata (results st') p"
      using ok built by (auto simp: parts_ok_def f)
    have "parts_ok X ser df job_id metadata st'"
      unfolding parts_ok_def using nums ch all by (simp add: f)
    moreover have "calls_ok df st'"
      using calls by (simp add: calls_ok_def f)
    ultimately show ?thesis using out f by simp
  qed
qed

lemma process_group_length:
  assumes "process_group self X batch_size k calls = (Some rs, c)" "batch_size = 1 \<longrightarrow> k = 1"
  shows "length rs = k"
proof (cases "batch_size = 1")
  case True
  then show ?thesis using assms by (auto simp: process_group_def split: prod.splits)
next
  case False
  then show ?thesis using assms process_batch_length [of self X k calls rs c]
    by (simp add: process_group_def)
qed

lemma run_batch_unfold:
  "run_batch self X ser df batch_size job_id metadata i st =
     (if pause_polls X (api_call_count st) = None then (st, Some Hung)
      else if \<not> (\<forall>c \<in> set [''RowID'', ''Sentiment'', ''Message'']. c \<in> set (columns df))
      then (st, Some (Raised KeyError))
      else
        (case process_group self X batch_size (length (take batch_size (drop i (rows df)))) (client_calls st) of
           (None, calls) \<Rightarrow> (st\<lparr>client_calls := calls\<rparr>, Some (Raised TypeError))
         | (Some batch_results, calls) \<Rightarrow>
             (case should_checkpoint ser
                     (int (length (results st @ batch_results))) (int (length (rows df))) of
                Inl e \<Rightarrow> (st\<lparr>results := results st @ batch_results,
                             api_call_count := Suc (api_call_count st),
                             client_calls := calls\<rparr>, Some (Raised e))
              | Inr False \<Rightarrow>
                  (progress_update df batch_size
                     (st\<lparr>results := results st @ batch_results,
                         api_call_count := Suc (api_call_count st),
                         client_calls := calls\<rparr>), None)
              | Inr True \<Rightarrow>
                  (case take_checkpoint X ser df job_id metadata (api_call_count st)
                          (st\<lparr>results := results st @ batch_results,
                              api_call_count := Suc (api_call_count st),
                              client_calls := calls\<rparr>) of
                     (st2, Some out) \<Rightarrow> (st2, Some out)
                   | (st2, None) \<Rightarrow> (progress_update df batch_size st2, None)))))"
  unfolding run_batch_def process_group_def Let_def
  by (simp split: prod.splits option.splits sum.splits bool.splits)

lemma parts_ok_extend:
  assumes "parts_ok X ser df job_id metadata st"
  shows "parts_ok X ser df job_id metadata
           (st\<lparr>results := results st @ brs, api_call_count := a, client_calls := c\<rparr>)"
  using assms by (auto simp: parts_ok_def intro: part_built_append)

lemma calls_ok_extend:
  assumes "calls_ok df st"
  shows "calls_ok df (st\<lparr>results := results st @ brs, api_call_count := a, client_calls := c\<rparr>)"
  using assms
  by (auto simp: calls_ok_def list_all_iff intro: progress_within_mono)

lemma run_batch_preserves:
  assumes ok: "parts_ok X ser df job_id metadata st"
    and calls: "calls_ok df st"
    and b: "0 < batch_size"
    and i: "i < length (rows df)" "length (results st) = i"
    and rb: "run_batch self X ser df batch_size job_id metadata i st = (st', out)"
  shows "parts_ok X ser df job_id metadata st' \<and> calls_ok df st'
       \<and> length (results st') \<le> length (rows df)
       \<and> out \<noteq> Some Returned
       \<and> (out = None \<longrightarrow>
            length (results st') = min (i + batch_size) (length (rows df))
            \<and> (length (results st') = length (rows df) \<longrightarrow>
                 last_checkpoint_row st' = length (rows df)))"
proof -
  let ?n = "length (rows df)"
  let ?k = "length (take batch_size (drop i (rows df)))"
  have k: "?k = min batch_size (?n - i)" by simp
  have base: "parts_ok X ser df job_id metadata st \<and> calls_ok df st \<and> length (results st) \<le> ?n"
    using ok calls i by simp
  show ?thesis
  proof (cases "pause_polls X (api_call_count st) = None")
    case True
    with rb have "st' = st" "out = Some Hung" by (simp_all add: run_batch_unfold)
    then show ?thesis using base by simp
  next
    case paused: False
    show ?thesis
    proof (cases "\<forall>c \<in> set [''RowID'', ''Sentiment'', ''Message'']. c \<in> set (columns df)")
      case False
      with rb paused have "st' = st" "out = Some (Raised KeyError)"
        by (simp_all add: run_batch_unfold)
      then show ?thesis using base by simp
    next
      case cols: True
      obtain br cc where bc: "process_group self X batch_size ?k (client_calls st) = (br, cc)"
        by (cases "process_group self X batch_size ?k (client_calls st)")
      show ?thesis
      proof (cases br)
        case None
        with rb paused cols bc have "st' = st\<lparr>client_calls := cc\<rparr>" "out = Some (Raised TypeError)"
          by (simp_all add: run_batch_unfold)
        then show ?thesis using base by (simp add: parts_ok_def calls_ok_def)
      next
        case (Some brs)
        let ?st1 = "st\<lparr>results := results st @ brs,
                       api_call_count := Suc (api_call_count st), client_calls := cc\<rparr>"
        have "batch_size = 1 \<longrightarrow> ?k = 1" using i by auto
        with bc Some have lb: "length brs = ?k" using process_group_length by blast
        have len1: "length (results ?st1) = min (i + batch_size) ?n"
          using lb i k by auto
        have ok1: "parts_ok X ser df job_id metadata ?st1" by (rule parts_ok_extend [OF ok])
        have calls1: "calls_ok df ?st1" by (rule calls_ok_extend [OF calls])
        show ?thesis
        proof (cases "should_checkpoint ser (int (length (results st @ brs))) (int ?n)")
          case (Inl e)
          with rb paused cols bc Some have r: "st' = ?st1" "out = Some (Raised e)"
            by (simp_all add: run_batch_unfold)
          have "length (results st') \<le> ?n" using r len1 by simp
          then show ?thesis using r ok1 calls1 by simp
        next
          case (Inr flag)
          show ?thesis
          proof (cases flag)
            case False
            with rb paused cols bc Some Inr
            have r: "st' = progress_update df batch_size ?st1" "out = None"
              by (simp_all add: run_batch_unfold)
            from Inr False have ne: "length (results ?st1) \<noteq> ?n"
              by (auto simp: should_checkpoint_def split: if_splits)
            have res: "results st' = results ?st1"
              using r by (simp add: progress_update_fields)
            have "parts_ok X ser df job_id metadata st'" "calls_ok df st'"
              using r ok1 calls1
              by (simp_all only: parts_ok_progress_update calls_ok_progress_update)
            moreover have l: "length (results st') = min (i + batch_size) ?n"
              using res len1 by simp
            moreover from l have "length (results st') \<le> ?n" by simp
            moreover have "length (results st') \<noteq> ?n" using res ne by simp
            moreover have "out \<noteq> Some Returned" using r(2) by simp
            ultimately show ?thesis by blast
          next
            case True
            obtain st2 o2 where tc: "take_checkpoint X ser df job_id metadata (api_call_count st) ?st1
                = (st2, o2)"
              by (cases "take_checkpoint X ser df job_id metadata (api_call_count st) ?st1")
            from take_checkpoint_preserves [OF ok1 calls1 tc]
            have p2: "parts_ok X ser df job_id metadata st2" "calls_ok df st2"
              "results st2 = results ?st1"
              "o2 = None \<longrightarrow> last_checkpoint_row st2 = length (results ?st1)"
              "o2 = None \<or> (\<exists>e. o2 = Some (Raised e))"
              by simp_all
            show ?thesis
            proof (cases o2)
              case None
              with rb paused cols bc Some Inr True tc
              have r: "st' = progress_update df batch_size st2" "out = None"
                by (simp_all add: run_batch_unfold)
              have res: "results st' = results ?st1"
                using r p2(3) by (simp add: progress_update_fields)
              have "parts_ok X ser df job_id metadata st'" "calls_ok df st'"
                using r p2(1,2)
                by (simp_all only: parts_ok_progress_update calls_ok_progress_update)
              moreover have l: "length (results st') = min (i + batch_size) ?n"
                using res len1 by simp
              moreover from l have "length (results st') \<le> ?n" by simp
              moreover have "last_checkpoint_row st' = length (results st')"
                using r p2(4) None res by (simp add: progress_update_fields)
              moreover have "out \<noteq> Some Returned" using r(2) by simp
              ultimately show ?thesis by metis
            next
              case (Some o3)
              with rb paused cols bc \<open>br = Some brs\<close> Inr True tc
              have r: "st' = st2" "out = Some o3"
                by (simp_all add: run_batch_unfold)
              from p2(5) Some have "o3 \<noteq> Returned" by auto
              moreover have "length (results st') \<le> ?n"
                using r p2(3) len1 by simp
              ultimately show ?thesis using r p2(1,2) by simp
            qed
          qed
        qed
      qed
    qed
  qed
qed

lemma batch_loop_preserves:
  assumes "parts_ok X ser df job_id metadata st"
    and "calls_ok df st"
    and "length (results st) = min i (length (rows df))"
    and "length (results st) = length (rows df) \<longrightarrow> last_checkpoint_row st = length (rows df)"
    and "batch_loop self X ser df batch_size job_id metadata i st = (st', out)"
  shows "parts_ok X ser df job_id metadata st' \<and> calls_ok df st'
       \<and> length (results st') \<le> length (rows df)
       \<and> (out = Returned \<and> 0 < batch_size \<longrightarrow>
            length (results st') = length (rows df)
            \<and> last_checkpoint_row st' = length (rows df))"
  using assms
proof (induction self X ser df batch_size job_id metadata i st rule: batch_loop.induct)
  case (1 self X ser df batch_size job_id metadata i st)
  let ?n = "length (rows df)"
  show ?case
  proof (cases "0 < batch_size \<and> i < ?n")
    case False
    with "1.prems"(5) have r: "st' = st" "out = Returned"
      by (simp_all add: batch_loop.simps)
    have "length (results st) \<le> ?n" using "1.prems"(3) by simp
    moreover have "0 < batch_size \<longrightarrow> length (results st) = ?n"
      using False "1.prems"(3) by auto
    ultimately show ?thesis using r "1.prems"(1,2,4) by blast
  next
    case True
    then have b: "0 < batch_size" and i: "i < ?n" by simp_all
    have li: "length (results st) = i" using "1.prems"(3) i by simp
    obtain st1 o1 where rb: "run_batch self X ser df batch_size job_id metadata i st = (st1, o1)"
      by (cases "run_batch self X ser df batch_size job_id metadata i st")
    note p = run_batch_preserves [OF "1.prems"(1,2) b i li rb]
    show ?thesis
    proof (cases o1)
      case (Some o2)
      with "1.prems"(5) True rb have r: "st' = st1" "out = o2"
        by (simp_all add: batch_loop.simps)
      from p Some have "o2 \<noteq> Returned" by simp
      then show ?thesis using r p by simp
    next
      case None
      with "1.prems"(5) True rb
      have r: "batch_loop self X ser df batch_size job_id metadata (i + batch_size) st1 = (st', out)"
        by (simp add: batch_loop.simps)
      from p None have q: "parts_ok X ser df job_id metadata st1" "calls_ok df st1"
        "length (results st1) = min (i + batch_size) ?n"
        "length (results st1) = ?n \<longrightarrow> last_checkpoint_row st1 = ?n"
        by simp_all
      show ?thesis
        by (rule "1.IH" [OF True rb [symmetric] None q r])
    qed
  qed
qed

lemma initial_state_ok:
  "parts_ok X ser df job_id metadata (initial_state fs)" "calls_ok df (initial_state fs)"
  "length (results (initial_state fs)) = min 0 (length (rows df))"
  "length (results (initial_state fs)) = length (rows df) \<longrightarrow>
     last_checkpoint_row (initial_state fs) = length (rows df)"
  by (simp_all add: parts_ok_def calls_ok_def initial_state_def)

lemma process_dataframe_preserves:
  assumes "process_dataframe self X ser fs df batch_size job_id metadata = (st, out)"
  shows "parts_ok X ser df job_id metadata st \<and> calls_ok df st
       \<and> length (results st) \<le> length (rows df)
       \<and> (out = Returned \<and> 0 < batch_size \<longrightarrow>
            length (results st) = length (rows df)
            \<and> last_checkpoint_row st = length (rows df))"
proof (cases "0 < batch_size")
  case False
  with assms have "st = initial_state fs" "out \<noteq> Returned \<or> \<not> 0 < batch_size"
    by (auto simp: process_dataframe_def split: if_splits)
  moreover have "length (results (initial_state fs)) \<le> length (rows df)"
    by (simp add: initial_state_def)
  ultimately show ?thesis using initial_state_ok(1,2) False by blast
next
  case True
  with assms have "batch_loop self X ser df (nat batch_size) job_id metadata 0 (initial_state fs)
      = (st, out)"
    by (simp add: process_dataframe_def)
  from batch_loop_preserves [OF initial_state_ok this] True show ?thesis by simp
qed

lemma chain_bounds:
  "chain s ps e \<Longrightarrow> s \<le> e \<and> (\<forall>p \<in> set ps. s \<le> part_first p \<and> part_first p < part_end p \<and> part_end p \<le> e)"
proof (induction ps arbitrary: s)
  case Nil
  then show ?case by simp
next
  case (Cons p ps)
  from Cons.prems have c: "part_first p = s" "s < part_end p" "chain (part_end p) ps e" by simp_all
  from Cons.IH [OF c(3)] c(1,2) show ?case by fastforce
qed

lemma chain_nth:
  "chain s ps e \<Longrightarrow> j < length ps \<Longrightarrow>
     part_first (ps ! j) = (if j = 0 then s else part_end (ps ! (j - 1)))"
proof (induction ps arbitrary: s j)
  case Nil
  then show ?case by simp
next
  case (Cons p ps)
  show ?case
  proof (cases j)
    case 0
    then show ?thesis using Cons.prems by simp
  next
    case (Suc k)
    from Cons.prems have c: "chain (part_end p) ps e" by simp
    from Cons.prems Suc have k: "k < length ps" by simp
    from Cons.IH [OF c k] Suc show ?thesis by (cases k) simp_all
  qed
qed

lemma chain_last:
  "chain s ps e \<Longrightarrow> ps \<noteq> [] \<Longrightarrow> part_end (last ps) = e"
  by (induction ps arbitrary: s) (auto split: if_splits)

lemma chain_order:
  "chain s ps e \<Longrightarrow> j < k \<Longrightarrow> k < length ps \<Longrightarrow> part_end (ps ! j) \<le> part_first (ps ! k)"
proof (induction ps arbitrary: s j k)
  case Nil
  then show ?case by simp
next
  case (Cons p ps)
  from Cons.prems have c: "chain (part_end p) ps e" by simp
  obtain k' where k: "k = Suc k'" using Cons.prems(2) by (cases k) simp_all
  show ?case
  proof (cases j)
    case 0
    from chain_bounds [OF c] Cons.prems(3) k have "part_end p \<le> part_first (ps ! k')"
      by simp
    then show ?thesis using 0 k by simp
  next
    case (Suc j')
    from Cons.IH [OF c, of j' k'] Cons.prems k Suc show ?thesis by simp
  qed
qed

lemma rowid_first_column:
  "rowid_first fr \<Longrightarrow> frame_column fr ''RowID'' = Inr (map hd (rows fr))"
  by (auto simp: rowid_first_def frame_column_def cell_at_def hd_conv_nth)

lemma index_of_Some_0:
  "index_of x ys = Some 0 \<longleftrightarrow> (\<exists>zs. ys = x # zs)"
  by (cases ys) (auto split: if_splits)

lemma set_column_rowid_first:
  assumes "rowid_first fr" "key \<noteq> ''RowID''"
  shows "rowid_first (set_column fr key v) \<and> map hd (rows (set_column fr key v)) = map hd (rows fr)"
proof (cases "index_of key (columns fr)")
  case None
  then show ?thesis using assms by (auto simp: set_column_def rowid_first_def)
next
  case (Some i)
  from assms obtain cs where cs: "columns fr = ''RowID'' # cs" by (auto simp: rowid_first_def)
  with Some assms(2) have "i \<noteq> 0" by (auto split: if_splits)
  then have "hd (r[i := v]) = hd r" if "r \<noteq> []" for r :: "pyval list"
    using that by (cases r; cases i) simp_all
  then show ?thesis using Some assms(1) by (auto simp: set_column_def rowid_first_def)
qed

lemma add_metadata_rowid_first:
  assumes "rowid_first fr" "''RowID'' \<notin> fst ` set meta"
  shows "rowid_first (add_metadata fr meta) \<and> map hd (rows (add_metadata fr meta)) = map hd (rows fr)"
  using assms unfolding add_metadata_def
proof (induction meta arbitrary: fr)
  case Nil
  then show ?case by simp
next
  case (Cons kv meta)
  obtain k v where kv: "kv = (k, v)" by (cases kv)
  with Cons.prems have k: "k \<noteq> ''RowID''" by auto
  from set_column_rowid_first [OF Cons.prems(1) k, of v]
  have s: "rowid_first (set_column fr k v)" "map hd (rows (set_column fr k v)) = map hd (rows fr)"
    by simp_all
  from Cons.IH [OF s(1)] Cons.prems(2) s(2) kv show ?case by simp
qed

lemma length_rows_set_column: "length (rows (set_column fr key v)) = length (rows fr)"
  by (simp add: set_column_def split: option.splits)

lemma length_rows_add_metadata: "length (rows (add_metadata fr meta)) = length (rows fr)"
  unfolding add_metadata_def
  by (induction meta arbitrary: fr) (auto simp: length_rows_set_column)

lemma keys_dict_set: "fst ` set (dict_set d k v) = insert k (fst ` set d)"
proof -
  have "dom (map_of (AList.update k v d)) = insert k (dom (map_of d))"
    by (simp add: update_conv')
  then show ?thesis by (simp add: dict_set_def dom_map_of_conv_image_fst)
qed

lemma rowid_not_key_checkpoint_metadata:
  assumes "''RowID'' \<notin> fst ` set metadata"
  shows "''RowID'' \<notin> fst ` set (checkpoint_metadata X b metadata)"
proof -
  obtain a b' c d where t: "throughput X b = (a, b', c, d)" by (cases "throughput X b") auto
  show ?thesis
    unfolding checkpoint_metadata_def t using assms by (simp add: keys_dict_set)
qed

lemma length_rows_frame_of_records: "length (rows (frame_of_records rs)) = length rs"
  by (simp add: frame_of_records_def Let_def)

lemma map_hd_zip_append:
  assumes "length xs = length ys" and "\<And>x y. hd (f x @ y) = g x"
  shows "map hd (map (\<lambda>(x, y). x @ y) (zip (map f xs) ys)) = map g xs"
  using assms(1) by (induction xs ys rule: list_induct2) (simp_all add: assms(2))

lemma prepare_checkpoint_data_rowids:
  assumes p: "prepare_checkpoint_data rslice rowslice df [''RowID'', ''Sentiment''] = Inr data"
    and i0: "index_of ''RowID'' (columns df) = Some i0"
  shows "rowid_first data \<and> map hd (rows data) = map (\<lambda>r. cell_at r i0) rowslice
       \<and> length (rows data) = length rowslice"
proof -
  let ?f = "reindex_row [''RowID'', ''Sentiment''] (columns df)"
  from p have len: "length rslice = length rowslice"
    by (auto simp: prepare_checkpoint_data_def Let_def split: if_splits)
  from p len have d: "data = hconcat \<lparr>columns = [''RowID'', ''Sentiment''], rows = map ?f rowslice\<rparr>
                               (frame_of_records rslice)"
    by (auto simp: prepare_checkpoint_data_def Let_def select_columns_def split: if_splits sum.splits)
  have hd: "hd (?f r @ y) = cell_at r i0" for r y
    by (simp add: reindex_row_def i0)
  have l2: "length rowslice = length (rows (frame_of_records rslice))"
    using len by (simp add: length_rows_frame_of_records)
  have cols: "columns data = ''RowID'' # ''Sentiment'' # columns (frame_of_records rslice)"
    by (simp add: d hconcat_def)
  have rws: "rows data = map (\<lambda>(x, y). x @ y) (zip (map ?f rowslice) (rows (frame_of_records rslice)))"
    by (simp add: d hconcat_def)
  have ne: "\<forall>r \<in> set (rows data). r \<noteq> []"
    unfolding rws by (auto simp: reindex_row_def dest!: set_zip_leftD)
  have "map hd (rows data) = map (\<lambda>r. cell_at r i0) rowslice"
    unfolding rws by (rule map_hd_zip_append [OF l2 hd])
  moreover have "length (rows data) = length rowslice"
    unfolding rws using l2 by simp
  ultimately show ?thesis using cols ne by (simp add: rowid_first_def)
qed

lemma part_built_rowids:
  assumes b: "part_built X ser df job_id metadata rs p"
    and col: "frame_column df ''RowID'' = Inr cells"
    and meta: "''RowID'' \<notin> fst ` set metadata"
  shows "frame_column (part_frame p) ''RowID''
           = Inr (take (part_end p - part_first p) (drop (part_first p) cells))
       \<and> length (rows (part_frame p)) = part_end p - part_first p"
proof -
  let ?f = "part_first p" and ?e = "part_end p"
  from b obtain data bno where
    pr: "prepare_checkpoint_data (take (?e - ?f) (drop ?f rs)) (take (?e - ?f) (drop ?f (rows df)))
           df [''RowID'', ''Sentiment''] = Inr data"
    and fr: "part_frame p = add_metadata data (checkpoint_metadata X bno metadata)"
    and e: "?e \<le> length rs"
    by (auto simp: part_built_def)
  from col obtain i0 where i0: "index_of ''RowID'' (columns df) = Some i0"
    and cells: "cells = map (\<lambda>r. cell_at r i0) (rows df)"
    by (auto simp: frame_column_def split: option.splits)
  from prepare_checkpoint_data_rowids [OF pr i0]
  have d: "rowid_first data"
    "map hd (rows data) = map (\<lambda>r. cell_at r i0) (take (?e - ?f) (drop ?f (rows df)))"
    "length (rows data) = length (take (?e - ?f) (drop ?f (rows df)))"
    by simp_all
  from pr have "length (take (?e - ?f) (drop ?f rs)) = length (take (?e - ?f) (drop ?f (rows df)))"
    by (auto simp: prepare_checkpoint_data_def Let_def split: if_splits)
  with e have len: "length (take (?e - ?f) (drop ?f (rows df))) = ?e - ?f" by simp
  note m = add_metadata_rowid_first [OF d(1) rowid_not_key_checkpoint_metadata [OF meta, of X bno]]
  have "frame_column (part_frame p) ''RowID'' = Inr (map hd (rows (part_frame p)))"
    unfolding fr by (rule rowid_first_column) (simp add: m)
  also have "map hd (rows (part_frame p)) = map (\<lambda>r. cell_at r i0) (take (?e - ?f) (drop ?f (rows df)))"
    unfolding fr using m d(2) by simp
  also have "\<dots> = take (?e - ?f) (drop ?f cells)"
    by (simp add: cells take_map drop_map)
  finally have "frame_column (part_frame p) ''RowID'' = Inr (take (?e - ?f) (drop ?f cells))" .
  moreover have "length (rows (part_frame p)) = ?e - ?f"
    unfolding fr using d(3) len by (simp add: length_rows_add_metadata)
  ultimately show ?thesis by simp
qed

lemma in_set_take_drop:
  "x \<in> set (take a (drop b xs)) \<Longrightarrow> \<exists>m. b \<le> m \<and> m < b + a \<and> m < length xs \<and> x = xs ! m"
proof -
  assume "x \<in> set (take a (drop b xs))"
  then obtain i where i: "i < length (take a (drop b xs))" "x = take a (drop b xs) ! i"
    by (auto simp: in_set_conv_nth)
  then have "i < a" "b + i < length xs" by auto
  moreover from this i have "x = xs ! (b + i)" by simp
  ultimately show ?thesis by (intro exI [of _ "b + i"]) simp
qed

lemma slices_ordered:
  assumes "sorted_wrt (<) (ids :: int list)" "b1 + a1 \<le> b2"
    and "x \<in> set (take a1 (drop b1 ids))" "y \<in> set (take a2 (drop b2 ids))"
  shows "x < y"
proof -
  from in_set_take_drop [OF assms(3)] obtain m where m: "m < b1 + a1" "x = ids ! m" by blast
  from in_set_take_drop [OF assms(4)] obtain k where k: "b2 \<le> k" "k < length ids" "y = ids ! k" by blast
  from m k assms(2) have "m < k" by simp
  from sorted_wrt_nth_less [OF assms(1) this k(2)] show ?thesis unfolding m(2) k(3) .
qed

text \<open>
  C4, as the code behaves. Whatever the inputs and however the run ends, the parts saved
  by one run of \<open>process_dataframe\<close> are numbered 1, 2, 3, ... without gaps and are
  written under the names of those numbers; the first part starts at the first processed
  row, every part starts where the previous one ends and is not empty, and each part is
  built from exactly the results and input rows of its positions. When the run returns
  (with a positive batch size) the last part ends at the last row, so the parts hold all
  results. When moreover the input rows are in strictly increasing \<open>RowID\<close> order (and
  the metadata has no \<open>RowID\<close> entry), every \<open>RowID\<close> of a part is smaller than every
  \<open>RowID\<close> of each later part.
\<close>

theorem process_dataframe_parts:
  assumes run: "process_dataframe self X ser fs df batch_size job_id metadata = (st, out)"
  shows "map part_number_of (saved_parts st) = [1..<Suc (length (saved_parts st))]
     \<and> (\<forall>j < length (saved_parts st).
           part_first (saved_parts st ! j)
             = (if j = 0 then 0 else part_end (saved_parts st ! (j - 1)))
         \<and> part_first (saved_parts st ! j) < part_end (saved_parts st ! j)
         \<and> part_end (saved_parts st ! j) \<le> length (results st)
         \<and> part_path (saved_parts st ! j) = get_checkpoint_filename ser job_id (int (Suc j))
         \<and> (\<exists>data batch_no.
               prepare_checkpoint_data
                 (take (part_end (saved_parts st ! j) - part_first (saved_parts st ! j))
                    (drop (part_first (saved_parts st ! j)) (results st)))
                 (take (part_end (saved_parts st ! j) - part_first (saved_parts st ! j))
                    (drop (part_first (saved_parts st ! j)) (rows df)))
                 df [''RowID'', ''Sentiment''] = Inr data
               \<and> part_frame (saved_parts st ! j)
                   = add_metadata data (checkpoint_metadata X batch_no metadata)))
     \<and> (out = Returned \<and> 0 < batch_size \<longrightarrow>
           length (results st) = length (rows df)
           \<and> (saved_parts st = [] \<longrightarrow> rows df = [])
           \<and> (saved_parts st \<noteq> [] \<longrightarrow> part_end (last (saved_parts st)) = length (rows df)))
     \<and> (\<forall>ids. frame_column df ''RowID'' = Inr (map PInt ids) \<and> sorted_wrt (<) ids
              \<and> ''RowID'' \<notin> fst ` set metadata \<longrightarrow>
           (\<forall>j k. j < k \<and> k < length (saved_parts st) \<longrightarrow>
              (\<exists>xs ys. frame_column (part_frame (saved_parts st ! j)) ''RowID'' = Inr (map PInt xs)
                 \<and> frame_column (part_frame (saved_parts st ! k)) ''RowID'' = Inr (map PInt ys)
                 \<and> xs \<noteq> [] \<and> ys \<noteq> [] \<and> (\<forall>x \<in> set xs. \<forall>y \<in> set ys. x < y))))"
  (is "?A \<and> ?B \<and> ?C \<and> ?D")
proof -
  let ?ps = "saved_parts st"
  note inv = process_dataframe_preserves [OF run]
  from inv have ok: "parts_ok X ser df job_id metadata st" by simp
  from ok have le: "last_checkpoint_row st \<le> length (results st)"
    and nums: "map part_number_of ?ps = [1..<Suc (checkpoint_counter st)]"
    and ch: "chain 0 ?ps (last_checkpoint_row st)"
    and built: "\<forall>p \<in> set ?ps. part_built X ser df job_id metadata (results st) p"
    by (simp_all add: parts_ok_def)
  from nums have "length (map part_number_of ?ps) = length [1..<Suc (checkpoint_counter st)]"
    by simp
  then have cnt: "checkpoint_counter st = length ?ps" by simp
  have a: ?A using nums cnt by simp
  have num_j: "part_number_of (?ps ! j) = Suc j" if "j < length ?ps" for j
  proof -
    have "map part_number_of ?ps ! j = [1..<Suc (length ?ps)] ! j" using a by simp
    moreover have "[1..<Suc (length ?ps)] ! j = 1 + j" using that by (intro nth_upt) simp
    ultimately show ?thesis using that by simp
  qed
  have b: ?B
  proof (intro allI impI)
    fix j assume j: "j < length ?ps"
    then have mem: "?ps ! j \<in> set ?ps" by simp
    from chain_bounds [OF ch] mem
    have "part_first (?ps ! j) < part_end (?ps ! j)" by blast
    moreover from built mem have pb: "part_built X ser df job_id metadata (results st) (?ps ! j)"
      by blast
    moreover from pb have "part_end (?ps ! j) \<le> length (results st)"
      by (simp add: part_built_def)
    moreover from pb num_j [OF j]
    have "part_path (?ps ! j) = get_checkpoint_filename ser job_id (int (Suc j))"
      by (simp add: part_built_def)
    moreover note chain_nth [OF ch j]
    ultimately show "part_first (?ps ! j) = (if j = 0 then 0 else part_end (?ps ! (j - 1)))
         \<and> part_first (?ps ! j) < part_end (?ps ! j)
         \<and> part_end (?ps ! j) \<le> length (results st)
         \<and> part_path (?ps ! j) = get_checkpoint_filename ser job_id (int (Suc j))
         \<and> (\<exists>data batch_no.
               prepare_checkpoint_data
                 (take (part_end (?ps ! j) - part_first (?ps ! j)) (drop (part_first (?ps ! j)) (results st)))
                 (take (part_end (?ps ! j) - part_first (?ps ! j)) (drop (part_first (?ps ! j)) (rows df)))
                 df [''RowID'', ''Sentiment''] = Inr data
               \<and> part_frame (?ps ! j) = add_metadata data (checkpoint_metadata X batch_no metadata))"
      unfolding part_built_def by blast
  qed
  have c: ?C
  proof
    assume "out = Returned \<and> 0 < batch_size"
    with inv have r: "length (results st) = length (rows df)"
      "last_checkpoint_row st = length (rows df)" by simp_all
    have "rows df = []" if "?ps = []"
      using ch that r(2) by simp
    moreover have "part_end (last ?ps) = length (rows df)" if "?ps \<noteq> []"
      using chain_last [OF ch that] r(2) by simp
    ultimately show "length (results st) = length (rows df)
           \<and> (?ps = [] \<longrightarrow> rows df = [])
           \<and> (?ps \<noteq> [] \<longrightarrow> part_end (last ?ps) = length (rows df))"
      using r(1) by blast
  qed
  have d: ?D
  proof (intro allI impI, elim conjE)
    fix ids j k
    assume col: "frame_column df ''RowID'' = Inr (map PInt ids)"
      and sorted: "sorted_wrt (<) ids"
      and meta: "''RowID'' \<notin> fst ` set metadata"
      and jk: "j < k" "k < length ?ps"
    let ?pj = "?ps ! j" and ?pk = "?ps ! k"
    let ?xs = "take (part_end ?pj - part_first ?pj) (drop (part_first ?pj) ids)"
    let ?ys = "take (part_end ?pk - part_first ?pk) (drop (part_first ?pk) ids)"
    from jk have memj: "?pj \<in> set ?ps" and memk: "?pk \<in> set ?ps" by simp_all
    from built memj have bj: "part_built X ser df job_id metadata (results st) ?pj" by blast
    from built memk have bk: "part_built X ser df job_id metadata (results st) ?pk" by blast
    from part_built_rowids [OF bj col meta]
    have cj: "frame_column (part_frame ?pj) ''RowID'' = Inr (map PInt ?xs)"
      and lj: "length (rows (part_frame ?pj)) = part_end ?pj - part_first ?pj"
      by (simp_all add: take_map drop_map)
    from part_built_rowids [OF bk col meta]
    have ck: "frame_column (part_frame ?pk) ''RowID'' = Inr (map PInt ?ys)"
      and lk: "length (rows (part_frame ?pk)) = part_end ?pk - part_first ?pk"
      by (simp_all add: take_map drop_map)
    from cj have "length ?xs = length (rows (part_frame ?pj))"
      by (auto simp: frame_column_def split: option.splits dest: arg_cong [where f = length])
    with lj chain_bounds [OF ch] memj have xne: "?xs \<noteq> []" by fastforce
    from ck have "length ?ys = length (rows (part_frame ?pk))"
      by (auto simp: frame_column_def split: option.splits dest: arg_cong [where f = length])
    with lk chain_bounds [OF ch] memk have yne: "?ys \<noteq> []" by fastforce
    from chain_order [OF ch jk] chain_bounds [OF ch] memj
    have ord: "part_first ?pj + (part_end ?pj - part_first ?pj) \<le> part_first ?pk" by fastforce
    have "\<forall>x \<in> set ?xs. \<forall>y \<in> set ?ys. x < y"
      using slices_ordered [OF sorted ord] by blast
    with cj ck xne yne
    show "\<exists>xs ys. frame_column (part_frame ?pj) ''RowID'' = Inr (map PInt xs)
                 \<and> frame_column (part_frame ?pk) ''RowID'' = Inr (map PInt ys)
                 \<and> xs \<noteq> [] \<and> ys \<noteq> [] \<and> (\<forall>x \<in> set xs. \<forall>y \<in> set ys. x < y)"
      by blast
  qed
  from a b c d show ?thesis by blast
qed

theorem process_dataframe_parts_witness:
  "snd (process_dataframe example_processor failing_client
          \<lparr>checkpoint_dir = ''ck'', checkpoint_interval = 2\<rparr> [] (example_frame [1, 2, 3]) 2 ''J'' [])
     = Returned
   \<and> (0::int) < 2
   \<and> frame_column (example_frame [1, 2, 3]) ''RowID'' = Inr (map PInt [1, 2, 3])
   \<and> sorted_wrt (<) [1, 2, 3 :: int]
   \<and> ''RowID'' \<notin> fst ` set ([] :: pydict)
   \<and> length (saved_parts (fst (process_dataframe example_processor failing_client
          \<lparr>checkpoint_dir = ''ck'', checkpoint_interval = 2\<rparr> [] (example_frame [1, 2, 3]) 2 ''J'' []))) = 2
   \<and> part_end (last (saved_parts (fst (process_dataframe example_processor failing_client
          \<lparr>checkpoint_dir = ''ck'', checkpoint_interval = 2\<rparr> [] (example_frame [1, 2, 3]) 2 ''J'' []))))
        = length (rows (example_frame [1, 2, 3]))
   \<and> (\<exists>xs ys.
         frame_column (part_frame (saved_parts (fst (process_dataframe example_processor failing_client
            \<lparr>checkpoint_dir = ''ck'', checkpoint_interval = 2\<rparr> [] (example_frame [1, 2, 3]) 2 ''J'' [])) ! 0))
            ''RowID'' = Inr (map PInt xs)
       \<and> frame_column (part_frame (saved_parts (fst (process_dataframe example_processor failing_client
            \<lparr>checkpoint_dir = ''ck'', checkpoint_interval = 2\<rparr> [] (example_frame [1, 2, 3]) 2 ''J'' [])) ! 1))
            ''RowID'' = Inr (map PInt ys)
       \<and> xs \<noteq> [] \<and> ys \<noteq> [] \<and> (\<forall>x \<in> set xs. \<forall>y \<in> set ys. x < y))"
  (is "?h1 \<and> ?h2 \<and> ?h3 \<and> ?h4 \<and> ?h5 \<and> ?h6 \<and> ?c1 \<and> ?c2")
proof -
  let ?run = "process_dataframe example_processor failing_client
          \<lparr>checkpoint_dir = ''ck'', checkpoint_interval = 2\<rparr> [] (example_frame [1, 2, 3]) 2 ''J'' []"
  have h1: ?h1 by code_simp
  have h2: ?h2 by simp
  have h3: ?h3 by code_simp
  have h4: ?h4 by simp
  have h5: ?h5 by simp
  have h6: ?h6 by code_simp
  have run: "?run = (fst ?run, snd ?run)" by simp
  note t = process_dataframe_parts [OF run]
  from h6 have ne: "saved_parts (fst ?run) \<noteq> []" by auto
  from t h1 h2 ne have c1: ?c1 by blast
  from t have "\<forall>ids. frame_column (example_frame [1, 2, 3]) ''RowID'' = Inr (map PInt ids)
        \<and> sorted_wrt (<) ids \<and> ''RowID'' \<notin> fst ` set ([] :: pydict) \<longrightarrow>
           (\<forall>j k. j < k \<and> k < length (saved_parts (fst ?run)) \<longrightarrow>
              (\<exists>xs ys. frame_column (part_frame (saved_parts (fst ?run) ! j)) ''RowID'' = Inr (map PInt xs)
                 \<and> frame_column (part_frame (saved_parts (fst ?run) ! k)) ''RowID'' = Inr (map PInt ys)
                 \<and> xs \<noteq> [] \<and> ys \<noteq> [] \<and> (\<forall>x \<in> set xs. \<forall>y \<in> set ys. x < y)))"
    by blast
  from this [rule_format, of "[1, 2, 3]" 0 1] h3 h4 h5 h6 have c2: ?c2 by simp
  from h1 h2 h3 h4 h5 h6 c1 c2 show ?thesis by blast
qed

text \<open>
  The claim as the specification words it fails on an input that is not sorted by
  \<open>RowID\<close>: for the rows with \<open>RowID\<close> 2 and 1 in that order, batch size 1 and
  checkpoint interval 1, part 1 holds \<open>RowID\<close> 2 and part 2 holds \<open>RowID\<close> 1.
\<close>

theorem process_dataframe_parts_counterexample:
  "map (\<lambda>p. (part_number_of p, part_first p, part_end p, frame_column (part_frame p) ''RowID''))
     (saved_parts (fst (process_dataframe example_processor failing_client
        \<lparr>checkpoint_dir = ''ck'', checkpoint_interval = 1\<rparr> [] (example_frame [2, 1]) 1 ''J'' [])))
     = [(1, 0, 1, Inr [PInt 2]), (2, 1, 2, Inr [PInt 1])]
   \<and> \<not> (2 :: int) < 1"
  by code_simp

lemma prepare_checkpoint_data_ok:
  assumes "length rs = length rws" "''RowID'' \<in> set (columns df)" "''Sentiment'' \<in> set (columns df)"
  shows "\<exists>data. prepare_checkpoint_data rs rws df [''RowID'', ''Sentiment''] = Inr data"
  using assms by (simp add: prepare_checkpoint_data_def Let_def select_columns_def)

lemma take_checkpoint_schedule:
  assumes le: "last_checkpoint_row st \<le> length (results st)"
    and n: "length (results st) \<le> length (rows df)"
    and cols: "''RowID'' \<in> set (columns df)" "''Sentiment'' \<in> set (columns df)"
  shows "\<exists>st'. take_checkpoint X ser df job_id metadata b st = (st', None)
        \<and> results st' = results st
        \<and> api_call_count st' = api_call_count st
        \<and> last_checkpoint_row st' = length (results st)
        \<and> (if last_checkpoint_row st < length (results st)
            then checkpoint_counter st' = Suc (checkpoint_counter st)
                 \<and> part_bounds st' = part_bounds st
                      @ [(Suc (checkpoint_counter st), last_checkpoint_row st, length (results st))]
            else checkpoint_counter st' = checkpoint_counter st \<and> part_bounds st' = part_bounds st)"
proof -
  let ?cur = "length (results st)" and ?lst = "last_checkpoint_row st"
  have "length (drop (length (results st) - (?cur - ?lst)) (results st))
      = length (take (?cur - ?lst) (drop ?lst (rows df)))"
    using le n by simp
  from prepare_checkpoint_data_ok [OF this cols]
  obtain data where d: "prepare_checkpoint_data (drop (length (results st) - (?cur - ?lst)) (results st))
         (take (?cur - ?lst) (drop ?lst (rows df))) df [''RowID'', ''Sentiment''] = Inr data" ..
  show ?thesis
  proof (cases "?lst < ?cur")
    case True
    with take_checkpoint_cases [of st X ser df job_id metadata b] d
    show ?thesis by (auto simp: part_bounds_def)
  next
    case False
    with take_checkpoint_cases [of st X ser df job_id metadata b] le
    show ?thesis by (auto simp: part_bounds_def)
  qed
qed

lemma run_batch_schedule:
  assumes r: "1 \<le> retries self"
    and pause: "\<forall>k. pause_polls X k \<noteq> None"
    and cols: "\<forall>c \<in> set [''RowID'', ''Sentiment'', ''Message'']. c \<in> set (columns df)"
    and c0: "checkpoint_interval ser \<noteq> 0"
    and b: "0 < batch_size"
    and i: "i < length (rows df)" "length (results st) = i"
    and le: "last_checkpoint_row st \<le> length (results st)"
  shows "\<exists>st'. run_batch self X ser df batch_size job_id metadata i st = (st', None)
       \<and> length (results st') = min (i + batch_size) (length (rows df))
       \<and> last_checkpoint_row st' \<le> length (results st')
       \<and> (if (int (min (i + batch_size) (length (rows df))) mod checkpoint_interval ser = 0
               \<or> min (i + batch_size) (length (rows df)) = length (rows df))
              \<and> last_checkpoint_row st < min (i + batch_size) (length (rows df))
           then last_checkpoint_row st' = min (i + batch_size) (length (rows df))
                \<and> checkpoint_counter st' = Suc (checkpoint_counter st)
                \<and> part_bounds st' = part_bounds st
                     @ [(Suc (checkpoint_counter st), last_checkpoint_row st,
                         min (i + batch_size) (length (rows df)))]
           else last_checkpoint_row st' = last_checkpoint_row st
                \<and> checkpoint_counter st' = checkpoint_counter st
                \<and> part_bounds st' = part_bounds st)"
proof -
  let ?n = "length (rows df)"
  let ?k = "length (take batch_size (drop i (rows df)))"
  let ?cur = "min (i + batch_size) ?n"
  have k: "?k = min batch_size (?n - i)" by simp
  have "\<exists>brs cc. process_group self X batch_size ?k (client_calls st) = (Some brs, cc)"
  proof (cases "batch_size = 1")
    case True
    then show ?thesis by (auto simp: process_group_def split: prod.splits)
  next
    case False
    then show ?thesis using process_batch_returns [OF r, of X ?k "client_calls st"]
      by (auto simp: process_group_def)
  qed
  then obtain brs cc where pg: "process_group self X batch_size ?k (client_calls st) = (Some brs, cc)"
    by blast
  have "batch_size = 1 \<longrightarrow> ?k = 1" using i by auto
  with pg have lb: "length brs = ?k" using process_group_length by blast
  let ?st1 = "st\<lparr>results := results st @ brs,
                 api_call_count := Suc (api_call_count st), client_calls := cc\<rparr>"
  have len1: "length (results ?st1) = ?cur" using lb i k by auto
  have len1': "length (results st @ brs) = ?cur" using len1 by simp
  have sc: "should_checkpoint ser (int (length (results st @ brs))) (int ?n)
      = Inr (int ?cur mod checkpoint_interval ser = 0 \<or> ?cur = ?n)"
    unfolding len1' using c0 by (simp add: should_checkpoint_def)
  have pb1: "part_bounds ?st1 = part_bounds st" by (simp add: part_bounds_def)
  have le1: "last_checkpoint_row ?st1 \<le> length (results ?st1)" using le by simp
  have lt: "last_checkpoint_row st < ?cur"
    using le i b by simp
  show ?thesis
  proof (cases "int ?cur mod checkpoint_interval ser = 0 \<or> ?cur = ?n")
    case False
    then have rb: "run_batch self X ser df batch_size job_id metadata i st
        = (progress_update df batch_size ?st1, None)"
      using pause cols pg sc by (simp add: run_batch_def Let_def)
    have "last_checkpoint_row (progress_update df batch_size ?st1) \<le> ?cur"
      using lt by (simp add: progress_update_fields)
    then show ?thesis
      unfolding rb using False len1 pb1
      by (simp add: progress_update_fields part_bounds_def)
  next
    case True
    have n1: "length (results ?st1) \<le> ?n" using len1 by simp
    from cols have cs: "''RowID'' \<in> set (columns df)" "''Sentiment'' \<in> set (columns df)" by simp_all
    from take_checkpoint_schedule [OF le1 n1 cs, of X ser job_id metadata "api_call_count st"]
    obtain st2 where tc: "take_checkpoint X ser df job_id metadata (api_call_count st) ?st1 = (st2, None)"
      and f: "results st2 = results ?st1" "last_checkpoint_row st2 = length (results ?st1)"
      and sch: "if last_checkpoint_row ?st1 < length (results ?st1)
            then checkpoint_counter st2 = Suc (checkpoint_counter ?st1)
                 \<and> part_bounds st2 = part_bounds ?st1
                      @ [(Suc (checkpoint_counter ?st1), last_checkpoint_row ?st1, length (results ?st1))]
            else checkpoint_counter st2 = checkpoint_counter ?st1 \<and> part_bounds st2 = part_bounds ?st1"
      by blast
    have rb: "run_batch self X ser df batch_size job_id metadata i st
        = (progress_update df batch_size st2, None)"
      using pause cols pg sc True tc by (simp add: run_batch_def Let_def)
    have res: "length (results st2) = ?cur" using f(1) len1 by simp
    have lst2: "last_checkpoint_row st2 = ?cur" using f(2) len1 by simp
    from sch lt len1 pb1 have "checkpoint_counter st2 = Suc (checkpoint_counter st)"
      "part_bounds st2 = part_bounds st @ [(Suc (checkpoint_counter st), last_checkpoint_row st, ?cur)]"
      by simp_all
    then show ?thesis
      unfolding rb using True lt res lst2
      by (simp add: progress_update_fields part_bounds_def)
  qed
qed

lemma checkpoint_schedule_save:
  assumes "0 < batch_size \<and> i < n"
    and "(int (min (i + batch_size) n) mod interval = 0 \<or> min (i + batch_size) n = n)
         \<and> lst < min (i + batch_size) n"
  shows "checkpoint_schedule interval n batch_size i lst counter
       = (Suc counter, lst, min (i + batch_size) n)
         # checkpoint_schedule interval n batch_size (i + batch_size) (min (i + batch_size) n) (Suc counter)"
proof -
  have "checkpoint_schedule interval n batch_size i lst counter
      = (let cur = min (i + batch_size) n in
         if (int cur mod interval = 0 \<or> cur = n) \<and> lst < cur
         then (Suc counter, lst, cur) # checkpoint_schedule interval n batch_size (i + batch_size) cur (Suc counter)
         else checkpoint_schedule interval n batch_size (i + batch_size) lst counter)"
    by (subst checkpoint_schedule.simps) (rule if_P [OF assms(1)])
  also have "\<dots> = (Suc counter, lst, min (i + batch_size) n)
         # checkpoint_schedule interval n batch_size (i + batch_size) (min (i + batch_size) n) (Suc counter)"
    unfolding Let_def by (rule if_P [OF assms(2)])
  finally show ?thesis .
qed

lemma checkpoint_schedule_skip:
  assumes "0 < batch_size \<and> i < n"
    and "\<not> ((int (min (i + batch_size) n) mod interval = 0 \<or> min (i + batch_size) n = n)
         \<and> lst < min (i + batch_size) n)"
  shows "checkpoint_schedule interval n batch_size i lst counter
       = checkpoint_schedule interval n batch_size (i + batch_size) lst counter"
proof -
  have "checkpoint_schedule interval n batch_size i lst counter
      = (let cur = min (i + batch_size) n in
         if (int cur mod interval = 0 \<or> cur = n) \<and> lst < cur
         then (Suc counter, lst, cur) # checkpoint_schedule interval n batch_size (i + batch_size) cur (Suc counter)
         else checkpoint_schedule interval n batch_size (i + batch_size) lst counter)"
    by (subst checkpoint_schedule.simps) (rule if_P [OF assms(1)])
  also have "\<dots> = checkpoint_schedule interval n batch_size (i + batch_size) lst counter"
    unfolding Let_def by (rule if_not_P [OF assms(2)])
  finally show ?thesis .
qed

lemma batch_loop_schedule:
  assumes "1 \<le> retries self"
    and "\<forall>k. pause_polls X k \<noteq> None"
    and "\<forall>c \<in> set [''RowID'', ''Sentiment'', ''Message'']. c \<in> set (columns df)"
    and "checkpoint_interval ser \<noteq> 0"
    and "length (results st) = min i (length (rows df))"
    and "last_checkpoint_row st \<le> length (results st)"
  shows "\<exists>st'. batch_loop self X ser df batch_size job_id metadata i st = (st', Returned)
       \<and> part_bounds st' = part_bounds st
            @ checkpoint_schedule (checkpoint_interval ser) (length (rows df)) batch_size i
                (last_checkpoint_row st) (checkpoint_counter st)"
  using assms
proof (induction self X ser df batch_size job_id metadata i st rule: batch_loop.induct)
  case (1 self X ser df batch_size job_id metadata i st)
  let ?n = "length (rows df)"
  let ?c = "checkpoint_interval ser"
  show ?case
  proof (cases "0 < batch_size \<and> i < ?n")
    case False
    then show ?thesis
      by (subst batch_loop.simps, subst checkpoint_schedule.simps) auto
  next
    case True
    then have b: "0 < batch_size" and i: "i < ?n" by simp_all
    have li: "length (results st) = i" using "1.prems"(5) i by simp
    let ?cur = "min (i + batch_size) ?n"
    from run_batch_schedule [OF "1.prems"(1-4) b i li "1.prems"(6), of job_id metadata]
    obtain st1 where rb: "run_batch self X ser df batch_size job_id metadata i st = (st1, None)"
      and l1: "length (results st1) = ?cur"
      and le1: "last_checkpoint_row st1 \<le> length (results st1)"
      and sch: "if (int ?cur mod ?c = 0 \<or> ?cur = ?n) \<and> last_checkpoint_row st < ?cur
           then last_checkpoint_row st1 = ?cur
                \<and> checkpoint_counter st1 = Suc (checkpoint_counter st)
                \<and> part_bounds st1 = part_bounds st
                     @ [(Suc (checkpoint_counter st), last_checkpoint_row st, ?cur)]
           else last_checkpoint_row st1 = last_checkpoint_row st
                \<and> checkpoint_counter st1 = checkpoint_counter st
                \<and> part_bounds st1 = part_bounds st"
      by blast
    from "1.IH" [OF True rb [symmetric] refl "1.prems"(1-4) l1 le1]
    obtain st' where bl: "batch_loop self X ser df batch_size job_id metadata (i + batch_size) st1
          = (st', Returned)"
      and pb: "part_bounds st' = part_bounds st1
            @ checkpoint_schedule ?c ?n batch_size (i + batch_size)
                (last_checkpoint_row st1) (checkpoint_counter st1)"
      by blast
    have loop: "batch_loop self X ser df batch_size job_id metadata i st = (st', Returned)"
      using True rb bl by (subst batch_loop.simps) simp
    have "part_bounds st' = part_bounds st
            @ checkpoint_schedule ?c ?n batch_size i (last_checkpoint_row st) (checkpoint_counter st)"
    proof (cases "(int ?cur mod ?c = 0 \<or> ?cur = ?n) \<and> last_checkpoint_row st < ?cur")
      case yes: True
      with sch have s: "last_checkpoint_row st1 = ?cur"
        "checkpoint_counter st1 = Suc (checkpoint_counter st)"
        "part_bounds st1 = part_bounds st @ [(Suc (checkpoint_counter st), last_checkpoint_row st, ?cur)]"
        by simp_all
      have "checkpoint_schedule ?c ?n batch_size i (last_checkpoint_row st) (checkpoint_counter st)
          = (Suc (checkpoint_counter st), last_checkpoint_row st, ?cur)
            # checkpoint_schedule ?c ?n batch_size (i + batch_size) ?cur (Suc (checkpoint_counter st))"
        by (rule checkpoint_schedule_save [OF True yes])
      then show ?thesis using pb by (simp only: s append_Cons append_Nil append_assoc)
    next
      case no: False
      with sch have s: "last_checkpoint_row st1 = last_checkpoint_row st"
        "checkpoint_counter st1 = checkpoint_counter st"
        "part_bounds st1 = part_bounds st"
        by simp_all
      have "checkpoint_schedule ?c ?n batch_size i (last_checkpoint_row st) (checkpoint_counter st)
          = checkpoint_schedule ?c ?n batch_size (i + batch_size)
              (last_checkpoint_row st) (checkpoint_counter st)"
        by (rule checkpoint_schedule_skip [OF True no])
      then show ?thesis using pb by (simp only: s)
    qed
    with loop show ?thesis by blast
  qed
qed

lemma process_dataframe_schedule:
  assumes "1 \<le> retries self"
    and "\<forall>k. pause_polls X k \<noteq> None"
    and "\<forall>c \<in> set [''RowID'', ''Sentiment'', ''Message'']. c \<in> set (columns df)"
    and "checkpoint_interval ser \<noteq> 0"
    and "0 < batch_size"
  shows "\<exists>st. process_dataframe self X ser fs df batch_size job_id metadata = (st, Returned)
       \<and> part_bounds st
           = checkpoint_schedule (checkpoint_interval ser) (length (rows df)) (nat batch_size) 0 0 0"
proof -
  have "length (results (initial_state fs)) = min 0 (length (rows df))"
    "last_checkpoint_row (initial_state fs) \<le> length (results (initial_state fs))"
    by (simp_all add: initial_state_def)
  from batch_loop_schedule [OF assms(1-4) this, of "nat batch_size" job_id metadata]
  show ?thesis using assms(5)
    by (simp add: process_dataframe_def initial_state_def part_bounds_def)
qed

text \<open>
  C6, as the code behaves. For a non-zero interval \<open>should_checkpoint\<close> returns true
  exactly when the processed count is a multiple of the interval or equals the total; for
  an interval of zero it raises. A run on which nothing fails (at least one attempt per
  batch, a pause that ends, the prompt columns present) returns, and saves its parts
  exactly where \<open>checkpoint_schedule\<close> says: at the cumulative batch ends that are
  multiples of the interval, and at the end. So a run over 120 rows with interval 50
  saves parts 1, 2, 3 at the row counts 50, 100, 120 when the batch size is one of 1, 2,
  5, 10, 25, 50, the divisors of 50.
\<close>

theorem should_checkpoint_cadence:
  "(checkpoint_interval ser \<noteq> 0 \<longrightarrow>
      should_checkpoint ser processed_count total_rows
        = Inr (checkpoint_interval ser dvd processed_count \<or> processed_count = total_rows))
   \<and> (checkpoint_interval ser = 0 \<longrightarrow>
      should_checkpoint ser processed_count total_rows = Inl ZeroDivisionError)
   \<and> (1 \<le> retries self \<and> (\<forall>k. pause_polls X k \<noteq> None)
       \<and> (\<forall>c \<in> set [''RowID'', ''Sentiment'', ''Message'']. c \<in> set (columns df))
       \<and> checkpoint_interval ser \<noteq> 0 \<and> 0 < batch_size \<longrightarrow>
      (\<exists>st. process_dataframe self X ser fs df batch_size job_id metadata = (st, Returned)
         \<and> part_bounds st
             = checkpoint_schedule (checkpoint_interval ser) (length (rows df)) (nat batch_size) 0 0 0))
   \<and> (1 \<le> retries self \<and> (\<forall>k. pause_polls X k \<noteq> None)
       \<and> (\<forall>c \<in> set [''RowID'', ''Sentiment'', ''Message'']. c \<in> set (columns df))
       \<and> length (rows df) = 120 \<and> checkpoint_interval ser = 50
       \<and> batch_size \<in> {1, 2, 5, 10, 25, 50} \<longrightarrow>
      (\<exists>st. process_dataframe self X ser fs df batch_size job_id metadata = (st, Returned)
         \<and> part_bounds st = [(1, 0, 50), (2, 50, 100), (3, 100, 120)]))"
  (is "?A \<and> ?B \<and> ?C \<and> ?D")
proof -
  have a: ?A by (simp add: should_checkpoint_def mod_eq_0_iff_dvd)
  have b: ?B by (simp add: should_checkpoint_def)
  have c: ?C
  proof
    assume h: "1 \<le> retries self \<and> (\<forall>k. pause_polls X k \<noteq> None)
       \<and> (\<forall>c \<in> set [''RowID'', ''Sentiment'', ''Message'']. c \<in> set (columns df))
       \<and> checkpoint_interval ser \<noteq> 0 \<and> 0 < batch_size"
    then have h1: "1 \<le> retries self" and h2: "\<forall>k. pause_polls X k \<noteq> None"
      and h3: "\<forall>c \<in> set [''RowID'', ''Sentiment'', ''Message'']. c \<in> set (columns df)"
      and h4: "checkpoint_interval ser \<noteq> 0" and h5: "0 < batch_size"
      by blast+
    show "\<exists>st. process_dataframe self X ser fs df batch_size job_id metadata = (st, Returned)
         \<and> part_bounds st
             = checkpoint_schedule (checkpoint_interval ser) (length (rows df)) (nat batch_size) 0 0 0"
      by (rule process_dataframe_schedule [OF h1 h2 h3 h4 h5])
  qed
  have s1: "checkpoint_schedule 50 120 1 0 0 0 = [(1, 0, 50), (2, 50, 100), (3, 100, 120)]"
    by code_simp
  have s2: "checkpoint_schedule 50 120 2 0 0 0 = [(1, 0, 50), (2, 50, 100), (3, 100, 120)]"
    by code_simp
  have s5: "checkpoint_schedule 50 120 5 0 0 0 = [(1, 0, 50), (2, 50, 100), (3, 100, 120)]"
    by code_simp
  have s10: "checkpoint_schedule 50 120 10 0 0 0 = [(1, 0, 50), (2, 50, 100), (3, 100, 120)]"
    by code_simp
  have s25: "checkpoint_schedule 50 120 25 0 0 0 = [(1, 0, 50), (2, 50, 100), (3, 100, 120)]"
    by code_simp
  have s50: "checkpoint_schedule 50 120 50 0 0 0 = [(1, 0, 50), (2, 50, 100), (3, 100, 120)]"
    by code_simp
  have d: ?D
  proof
    assume h: "1 \<le> retries self \<and> (\<forall>k. pause_polls X k \<noteq> None)
       \<and> (\<forall>c \<in> set [''RowID'', ''Sentiment'', ''Message'']. c \<in> set (columns df))
       \<and> length (rows df) = 120 \<and> checkpoint_interval ser = 50
       \<and> batch_size \<in> {1, 2, 5, 10, 25, 50}"
    then have h1: "1 \<le> retries self" and h2: "\<forall>k. pause_polls X k \<noteq> None"
      and h3: "\<forall>c \<in> set [''RowID'', ''Sentiment'', ''Message'']. c \<in> set (columns df)"
      and n: "length (rows df) = 120" and iv: "checkpoint_interval ser = 50"
      and bs: "batch_size \<in> {1, 2, 5, 10, 25, 50}"
      by blast+
    from iv have h4: "checkpoint_interval ser \<noteq> 0" by simp
    from bs have h5: "0 < batch_size" by auto
    from process_dataframe_schedule [OF h1 h2 h3 h4 h5, of fs job_id metadata]
    obtain st where run: "process_dataframe self X ser fs df batch_size job_id metadata = (st, Returned)"
      and pb: "part_bounds st = checkpoint_schedule 50 120 (nat batch_size) 0 0 0"
      unfolding n iv by blast
    from bs have "checkpoint_schedule 50 120 (nat batch_size) 0 0 0
        = [(1, 0, 50), (2, 50, 100), (3, 100, 120)]"
      using s1 s2 s5 s10 s25 s50 by auto
    with run pb show "\<exists>st. process_dataframe self X ser fs df batch_size job_id metadata = (st, Returned)
         \<and> part_bounds st = [(1, 0, 50), (2, 50, 100), (3, 100, 120)]"
      by simp
  qed
  from a b c d show ?thesis by blast
qed

theorem should_checkpoint_cadence_witness:
  "1 \<le> retries example_processor
   \<and> length (rows (example_frame (map int [1..<121]))) = 120
   \<and> (10 :: int) \<in> {1, 2, 5, 10, 25, 50}
   \<and> should_checkpoint \<lparr>checkpoint_dir = ''ck'', checkpoint_interval = 50\<rparr> 100 120 = Inr True
   \<and> (\<exists>st. process_dataframe example_processor failing_client
              \<lparr>checkpoint_dir = ''ck'', checkpoint_interval = 50\<rparr> []
              (example_frame (map int [1..<121])) 10 ''J'' [] = (st, Returned)
         \<and> part_bounds st = [(1, 0, 50), (2, 50, 100), (3, 100, 120)])"
  (is "?h1 \<and> ?h2 \<and> ?h3 \<and> ?c1 \<and> ?c2")
proof -
  let ?ser = "\<lparr>checkpoint_dir = ''ck'', checkpoint_interval = 50\<rparr>"
  let ?df = "example_frame (map int [1..<121])"
  note t = should_checkpoint_cadence [of ?ser 100 120 example_processor failing_client ?df 10 "[]" "''J''" "[]"]
  have h1: ?h1 by (simp add: example_processor_def)
  have h2: ?h2 by (simp add: example_frame_def)
  have h3: ?h3 by simp
  have p: "\<forall>k. pause_polls failing_client k \<noteq> None" by (simp add: failing_client_def)
  have cols: "\<forall>c \<in> set [''RowID'', ''Sentiment'', ''Message'']. c \<in> set (columns ?df)"
    by (simp add: example_frame_def)
  have iv: "checkpoint_interval ?ser = 50" by simp
  from t iv have "should_checkpoint ?ser 100 120 = Inr ((50::int) dvd 100 \<or> (100::int) = 120)"
    by simp
  then have c1: ?c1 by simp
  from t h1 p cols h2 iv h3 have c2: ?c2 by blast
  from h1 h2 h3 c1 c2 show ?thesis by blast
qed

text \<open>
  The claim as the specification words it fails for a batch size that does not divide the
  interval: with batches of 15 rows the processed counts are 15, 30, ..., 120, none of
  them 50 or 100, and the run over 120 rows saves the single part 1 at row count 120.
  And with an interval of zero \<open>should_checkpoint(0, 0)\<close> raises instead of returning
  true.
\<close>

theorem should_checkpoint_cadence_counterexample:
  "length (rows (example_frame (map int [1..<121]))) = 120
   \<and> process_dataframe example_processor failing_client
        \<lparr>checkpoint_dir = ''ck'', checkpoint_interval = 50\<rparr> []
        (example_frame (map int [1..<121])) 15 ''J'' []
      = (fst (process_dataframe example_processor failing_client
           \<lparr>checkpoint_dir = ''ck'', checkpoint_interval = 50\<rparr> []
           (example_frame (map int [1..<121])) 15 ''J'' []), Returned)
   \<and> part_bounds (fst (process_dataframe example_processor failing_client
        \<lparr>checkpoint_dir = ''ck'', checkpoint_interval = 50\<rparr> []
        (example_frame (map int [1..<121])) 15 ''J'' []))
      = [(1, 0, 120)]
   \<and> should_checkpoint \<lparr>checkpoint_dir = ''ck'', checkpoint_interval = 0\<rparr> 0 0
      = Inl ZeroDivisionError"
proof -
  let ?run = "process_dataframe example_processor failing_client
        \<lparr>checkpoint_dir = ''ck'', checkpoint_interval = 50\<rparr> []
        (example_frame (map int [1..<121])) 15 ''J'' []"
  have "length (rows (example_frame (map int [1..<121]))) = 120" by (simp add: example_frame_def)
  moreover have "snd ?run = Returned" by code_simp
  then have "?run = (fst ?run, Returned)" by (metis prod.collapse)
  moreover have "part_bounds (fst ?run) = [(1, 0, 120)]" by code_simp
  moreover have "should_checkpoint \<lparr>checkpoint_dir = ''ck'', checkpoint_interval = 0\<rparr> 0 0
      = Inl ZeroDivisionError" by code_simp
  ultimately show ?thesis by blast
qed

section \<open>Properties of the worker status\<close>

text \<open>
  Every method of \<open>WorkerStatus\<close> that the worker calls before completion keeps the
  writer's invariant: the counts only come from \<open>update_progress\<close>, whose row count is
  at most the number of rows.
\<close>

lemma writer_ok_update:
  assumes "writer_ok n w" "ws_state (f (current w)) \<noteq> Completed"
    "ws_total_rows (f (current w)) = m" "ws_rows_processed (f (current w)) \<le> m"
  shows "writer_ok m (update f w)"
  using assms by (simp add: writer_ok_def update_def save_def doc_ok_def)

lemma documents_update:
  "documents (update f w) = documents w @ [f (current w)]"
  "current (update f w) = f (current w)"
  by (simp_all add: update_def save_def)

lemma writer_ok_new: "writer_ok 0 new_status"
  by (simp add: writer_ok_def new_status_def save_def doc_ok_def)

lemma writer_ok_set_running:
  assumes "writer_ok n w" "ws_rows_processed (current w) = 0" "0 \<le> m"
  shows "writer_ok m (set_running a b m w) \<and> ws_rows_processed (current (set_running a b m w)) = 0"
  using assms unfolding set_running_def
  by (simp add: writer_ok_def update_def save_def doc_ok_def)

lemma writer_ok_bridge_call:
  assumes "writer_ok (int n) w" "progress_within n len call" "len \<le> n"
  shows "writer_ok (int n) (bridge_call call w)"
proof (cases call)
  case (UpdateProgress c t a)
  with assms have "c \<le> n" by simp
  then show ?thesis
    using assms(1) UpdateProgress
    by (simp add: set_progress_def Let_def writer_ok_def update_def save_def doc_ok_def)
next
  case (RecordCheckpoint k f)
  then show ?thesis
    using assms(1) by (simp add: add_checkpoint_def writer_ok_def save_def doc_ok_def)
qed

lemma writer_ok_bridge_calls:
  assumes "writer_ok (int n) w" "list_all (progress_within n len) calls" "len \<le> n"
  shows "writer_ok (int n) (bridge_calls calls w)"
  using assms unfolding bridge_calls_def
proof (induction calls arbitrary: w)
  case Nil
  then show ?case by simp
next
  case (Cons c calls)
  from Cons.prems have "writer_ok (int n) (bridge_call c w)"
    using writer_ok_bridge_call [of n w len c] by simp
  from Cons.IH [OF this] Cons.prems show ?case by simp
qed

lemma docs_ok_set_failed:
  assumes "writer_ok n w"
  shows "list_all doc_ok (documents (set_failed msg w))"
  using assms by (simp add: set_failed_def writer_ok_def update_def save_def doc_ok_def)

lemma docs_ok_set_completed:
  assumes "writer_ok n w"
  shows "list_all doc_ok (documents (set_completed out n w))"
  using assms by (simp add: set_completed_def writer_ok_def update_def save_def doc_ok_def)

lemma first_doc_new: "first_doc new_status"
  by (simp add: first_doc_def new_status_def save_def)

lemma first_doc_update: "first_doc w \<Longrightarrow> first_doc (update f w)"
  by (simp add: first_doc_def update_def save_def)

lemma first_doc_save: "first_doc w \<Longrightarrow> first_doc (save (w\<lparr>current := d\<rparr>))"
  by (simp add: first_doc_def save_def)

lemma first_doc_bridge_call: "first_doc w \<Longrightarrow> first_doc (bridge_call c w)"
  by (cases c) (simp_all add: set_progress_def Let_def add_checkpoint_def first_doc_update first_doc_save)

lemma first_doc_bridge_calls: "first_doc w \<Longrightarrow> first_doc (bridge_calls calls w)"
  unfolding bridge_calls_def
  by (induction calls arbitrary: w) (simp_all add: first_doc_bridge_call)

lemma worker_run_documents:
  assumes bs: "0 \<le> cfg_batch_size cfg"
  shows "list_all doc_ok (documents (fst (worker_run cfg world self X fs)))
       \<and> first_doc (fst (worker_run cfg world self X fs))"
proof -
  let ?w0 = new_status
  have w0: "writer_ok 0 ?w0" and f0: "first_doc ?w0"
    by (rule writer_ok_new, rule first_doc_new)
  have r0: "ws_rows_processed (current ?w0) = 0"
    by (simp add: new_status_def save_def)
  from w0 have d0: "list_all doc_ok (documents ?w0)" by (simp add: writer_ok_def)
  show ?thesis
  proof (cases "prompts_load world")
    case False
    then show ?thesis using d0 f0 by (simp add: worker_run_def)
  next
    case pl: True
    show ?thesis
    proof (cases "load_data world")
      case (Inl e)
      then show ?thesis using pl d0 f0 by (simp add: worker_run_def)
    next
      case (Inr df)
      let ?n = "length (rows df)"
      show ?thesis
      proof (cases "?n = 0")
        case True
        have "list_all doc_ok (documents (set_completed None 0 ?w0))"
          by (rule docs_ok_set_completed [OF w0])
        moreover have "first_doc (set_completed None 0 ?w0)"
          unfolding set_completed_def by (rule first_doc_update [OF f0])
        ultimately show ?thesis using pl Inr True by (simp add: worker_run_def)
      next
        case n: False
        let ?w1 = "update (\<lambda>d. d\<lparr>ws_row_start := cfg_row_start cfg,
                                      ws_row_end := cfg_row_end cfg\<rparr>) ?w0"
        let ?w2 = "set_running (ws_row_start (current ?w1)) (ws_row_end (current ?w1)) (int ?n) ?w1"
        have w1: "writer_ok 0 ?w1"
          using w0 by (intro writer_ok_update [OF w0]) (simp_all add: writer_ok_def)
        have r1: "ws_rows_processed (current ?w1) = 0"
          using r0 by (simp add: documents_update)
        have f1: "first_doc ?w1" by (rule first_doc_update [OF f0])
        have w2: "writer_ok (int ?n) ?w2"
          using writer_ok_set_running [OF w1 r1, of "int ?n"] by simp
        have f2: "first_doc ?w2" unfolding set_running_def by (rule first_doc_update [OF f1])
        show ?thesis
        proof (cases "ollama_connects world")
          case False
          have "list_all doc_ok (documents (set_failed (error_name ConnectionError) ?w2))"
            by (rule docs_ok_set_failed [OF w2])
          moreover have "first_doc (set_failed (error_name ConnectionError) ?w2)"
            unfolding set_failed_def by (rule first_doc_update [OF f2])
          ultimately show ?thesis using pl Inr n False
            by (simp add: worker_run_def Let_def)
        next
          case oc: True
          let ?ser = "\<lparr>checkpoint_dir = cfg_checkpoint_dir cfg,
                            checkpoint_interval = cfg_checkpoint_interval cfg\<rparr>"
          obtain st out where run:
            "process_dataframe self X ?ser fs df (cfg_batch_size cfg) (worker_job_id cfg)
               (worker_metadata cfg) = (st, out)"
            by (cases "process_dataframe self X ?ser fs df (cfg_batch_size cfg) (worker_job_id cfg)
               (worker_metadata cfg)") blast
          note p = process_dataframe_preserves [OF run]
          from p have calls: "list_all (progress_within ?n (length (results st))) (monitor_calls st)"
            and len: "length (results st) \<le> ?n"
            by (simp_all add: calls_ok_def)
          let ?w3 = "bridge_calls (monitor_calls st) ?w2"
          have w3: "writer_ok (int ?n) ?w3"
            by (rule writer_ok_bridge_calls [OF w2 calls len])
          have f3: "first_doc ?w3" by (rule first_doc_bridge_calls [OF f2])
          show ?thesis
          proof (cases out)
            case Hung
            from w3 have "list_all doc_ok (documents ?w3)" by (simp add: writer_ok_def)
            then show ?thesis using pl Inr n oc run Hung f3
              by (simp add: worker_run_def Let_def)
          next
            case (Raised e)
            have "list_all doc_ok (documents (set_failed (error_name e) ?w3))"
              by (rule docs_ok_set_failed [OF w3])
            moreover have "first_doc (set_failed (error_name e) ?w3)"
              unfolding set_failed_def by (rule first_doc_update [OF f3])
            ultimately show ?thesis using pl Inr n oc run Raised
              by (simp add: worker_run_def Let_def)
          next
            case Returned
            have "cfg_batch_size cfg \<noteq> 0"
            proof
              assume z: "cfg_batch_size cfg = 0"
              have "snd (process_dataframe self X ?ser fs df 0 (worker_job_id cfg)
                      (worker_metadata cfg)) \<noteq> Returned"
                by (simp add: process_dataframe_def)
              with run z Returned show False by simp
            qed
            with bs have "0 < cfg_batch_size cfg" by simp
            with p Returned have full: "length (results st) = ?n" by simp
            obtain fs' merged where m:
              "merge_checkpoints ?ser (file_system st) (worker_job_id cfg) (cfg_output_path cfg)
                 = (fs', merged)"
              by (cases "merge_checkpoints ?ser (file_system st) (worker_job_id cfg)
                    (cfg_output_path cfg)") blast
            have "list_all doc_ok (documents (set_completed (Some (cfg_output_path cfg)) (int ?n) ?w3))"
              by (rule docs_ok_set_completed [OF w3])
            moreover have "first_doc (set_completed (Some (cfg_output_path cfg)) (int ?n) ?w3)"
              unfolding set_completed_def by (rule first_doc_update [OF f3])
            ultimately show ?thesis using pl Inr n oc run Returned m full
              by (simp add: worker_run_def Let_def)
          qed
        qed
      qed
    qed
  qed
qed

text \<open>
  Claim C8, as amended. For every worker whose batch size is not negative, every status
  document it writes has \<open>rows_processed \<le> total_rows\<close>, and a document in state
  \<open>completed\<close> has \<open>rows_processed = total_rows\<close>. The converse does not hold of any worker:
  the first document it writes, that of \<open>WorkerStatus.__init__\<close>, is in state
  \<open>initializing\<close> with both counts 0.
\<close>

theorem worker_status_documents:
  assumes "0 \<le> cfg_batch_size cfg"
  shows "(\<forall>d \<in> set (documents (fst (worker_run cfg world self X fs))).
            ws_rows_processed d \<le> ws_total_rows d
          \<and> (ws_state d = Completed \<longrightarrow> ws_rows_processed d = ws_total_rows d))
       \<and> documents (fst (worker_run cfg world self X fs)) \<noteq> []
       \<and> ws_state (hd (documents (fst (worker_run cfg world self X fs)))) = Initializing
       \<and> ws_rows_processed (hd (documents (fst (worker_run cfg world self X fs))))
           = ws_total_rows (hd (documents (fst (worker_run cfg world self X fs))))"
proof -
  note t = worker_run_documents [OF assms, of world self X fs]
  from t have "\<forall>d \<in> set (documents (fst (worker_run cfg world self X fs))). doc_ok d"
    by (simp add: list_all_iff)
  moreover from t have "documents (fst (worker_run cfg world self X fs)) \<noteq> []"
    and "hd (documents (fst (worker_run cfg world self X fs))) = current new_status"
    by (simp_all add: first_doc_def)
  ultimately show ?thesis by (simp add: doc_ok_def new_status_def save_def)
qed

text \<open>
  The theorem at the worker for rows 1 to 3: the run succeeds, its last document is in
  state \<open>completed\<close>, of 3 rows, and so counts 3 rows as processed.
\<close>

theorem worker_status_documents_witness:
  "0 \<le> cfg_batch_size example_config
   \<and> snd (snd (worker_run example_config example_world example_processor failing_client []))
       = Success
   \<and> ws_state (last (documents (fst (worker_run example_config example_world
        example_processor failing_client [])))) = Completed
   \<and> ws_total_rows (last (documents (fst (worker_run example_config example_world
        example_processor failing_client [])))) = 3
   \<and> ws_rows_processed (last (documents (fst (worker_run example_config example_world
        example_processor failing_client []))))
      = ws_total_rows (last (documents (fst (worker_run example_config example_world
        example_processor failing_client []))))"
  (is "?h \<and> ?r \<and> ?s \<and> ?n \<and> ?c")
proof -
  let ?docs = "documents (fst (worker_run example_config example_world
        example_processor failing_client []))"
  have h: ?h by (simp add: example_config_def)
  have r: ?r by code_simp
  have s: ?s by code_simp
  have n: ?n by code_simp
  note t = worker_status_documents [OF h, of example_world example_processor failing_client "[]"]
  from t have "?docs \<noteq> []" by blast
  then have "last ?docs \<in> set ?docs" by (rule last_in_set)
  with t s have c: ?c by blast
  from h r s n c show ?thesis by blast
qed

text \<open>
  The claim as the specification words it fails on that run: the two \<open>initializing\<close>
  documents have equal counts (0 of 0), and so have the five \<open>running\<close> documents
  written for the last batch (3 of 3), none of them \<open>completed\<close>. And with a negative batch size \<open>range(0, total_rows, batch_size)\<close> is
  empty, no row is processed, and the worker completes with 0 rows of 3.
\<close>

theorem worker_status_documents_counterexample:
  "status_summary (fst (worker_run example_config example_world example_processor failing_client []))
     = [(Initializing, 0, 0), (Initializing, 0, 0), (Running, 0, 3),
        (Running, 2, 3), (Running, 2, 3), (Running, 2, 3), (Running, 2, 3), (Running, 2, 3),
        (Running, 3, 3), (Running, 3, 3), (Running, 3, 3), (Running, 3, 3), (Running, 3, 3),
        (Completed, 3, 3)]
   \<and> status_summary (fst (worker_run (example_config\<lparr>cfg_batch_size := - 1\<rparr>) example_world
        example_processor failing_client []))
     = [(Initializing, 0, 0), (Initializing, 0, 0), (Running, 0, 3), (Completed, 0, 3)]"
  by code_simp

end
